(* ===== verification/Lsp_Prelude.thy ===== *)
theory Lsp_Prelude
  imports Main "HOL-Library.Word" "HOL-Library.Sublist"
begin

text \<open>
  The prelude of the development: the fact collections, the type synonyms for the machine
  types and the result type of the source, and the generic lemmas on lists and maps that the
  component theories share.

  A Rust \<open>Result<T, E>\<close> is a sum \<open>'e + 't\<close> with \<open>Inl\<close> for \<open>Err\<close>; an \<open>Option\<close> is an option; a
  future that has not completed is the value \<open>Pending\<close>. A Rust \<open>String\<close> and a byte slice are
  both a \<open>string\<close>: a HOL character is one byte, and a Rust string is its UTF-8 bytes.
\<close>

named_theorems codec_simps "unfolding rules for the wire codec"
named_theorems serde_simps "unfolding rules for serialisation and deserialisation"
named_theorems queue_simps "unfolding rules for the request trackers"
named_theorems conn_simps "unfolding rules for the connection"

type_synonym bytes = "char list"
type_synonym i32 = "32 word"
type_synonym u64 = "64 word"

text \<open>The value of an asynchronous call: completed with a result, or still waiting.\<close>

datatype 'a poll = Ready 'a | Pending

abbreviation byte_val :: "char \<Rightarrow> nat" where
  "byte_val c \<equiv> of_char c"

subsection \<open>Results\<close>

definition res_bind :: "'e + 'a \<Rightarrow> ('a \<Rightarrow> 'e + 'b) \<Rightarrow> 'e + 'b" where
  "res_bind r f = (case r of Inl e \<Rightarrow> Inl e | Inr a \<Rightarrow> f a)"

definition res_ok :: "'e + 'a \<Rightarrow> 'a option" where
  "res_ok r = (case r of Inl _ \<Rightarrow> None | Inr a \<Rightarrow> Some a)"

lemma res_bind_simps [simp]:
  "res_bind (Inl e) f = Inl e"
  "res_bind (Inr a) f = f a"
  by (simp_all add: res_bind_def)

lemma res_bind_Inr_iff: "res_bind r f = Inr b \<longleftrightarrow> (\<exists>a. r = Inr a \<and> f a = Inr b)"
  by (cases r) auto

lemma res_ok_simps [simp]:
  "res_ok (Inl e) = None"
  "res_ok (Inr a) = Some a"
  by (simp_all add: res_ok_def)

lemma res_ok_Some_iff [simp]: "res_ok r = Some a \<longleftrightarrow> r = Inr a"
  by (cases r) auto

subsection \<open>Lists\<close>

lemma take_append_le [simp]: "n \<le> length xs \<Longrightarrow> take n (xs @ ys) = take n xs"
  by simp

lemma drop_append_le: "n \<le> length xs \<Longrightarrow> drop n (xs @ ys) = drop n xs @ ys"
  by simp

lemma take_length_eq_prefix: "take (length p) xs = p \<longleftrightarrow> prefix p xs"
  by (metis append_eq_conv_conj prefix_def take_is_prefix)

subsection \<open>Finite maps\<close>

lemma card_dom_upd:
  assumes "finite (dom m)"
  shows "card (dom (m(k \<mapsto> v))) = (if k \<in> dom m then card (dom m) else Suc (card (dom m)))"
  using assms by (simp add: insert_absorb)

lemma card_dom_del:
  assumes "finite (dom m)"
  shows "card (dom (m(k := None))) = (if k \<in> dom m then card (dom m) - 1 else card (dom m))"
  using assms by simp

end
