(* ===== verification/Rust_Std.thy ===== *)
theory Rust_Std
  imports Lsp_Prelude
begin

text \<open>
  The parts of Rust's standard library that the source calls: slice windows and searches,
  UTF-8 validation, \<open>str::split\<close>, \<open>str::trim\<close>, \<open>to_ascii_lowercase\<close>, decimal parsing and
  printing of \<open>usize\<close> (64 bits), and \<open>io::Error\<close>.
\<close>

subsection \<open>Slices\<close>

text \<open>\<open>slice::windows(n)\<close>, for a positive size.\<close>

definition windows :: "nat \<Rightarrow> 'a list \<Rightarrow> 'a list list" where
  "windows n xs = map (\<lambda>i. take n (drop i xs)) [0..<Suc (length xs) - n]"

text \<open>\<open>Iterator::position\<close>.\<close>

fun position :: "('a \<Rightarrow> bool) \<Rightarrow> 'a list \<Rightarrow> nat option" where
  "position p [] = None"
| "position p (x # xs) = (if p x then Some 0 else map_option Suc (position p xs))"

subsection \<open>UTF-8\<close>

definition utf8_cont :: "char \<Rightarrow> bool" where
  "utf8_cont c = (0x80 \<le> byte_val c \<and> byte_val c \<le> 0xBF)"

text \<open>
  The width of the first character of a byte sequence, by the table of well-formed UTF-8
  (no overlong forms, no surrogates, nothing above U+10FFFF); \<open>None\<close> where no well-formed
  character starts.
\<close>

definition utf8_first :: "bytes \<Rightarrow> nat option" where
  "utf8_first s =
     (case s of
        [] \<Rightarrow> None
      | a # r \<Rightarrow>
          if byte_val a < 0x80 then Some 1
          else if 0xC2 \<le> byte_val a \<and> byte_val a \<le> 0xDF then
            (case r of b # _ \<Rightarrow> if utf8_cont b then Some 2 else None | [] \<Rightarrow> None)
          else if 0xE0 \<le> byte_val a \<and> byte_val a \<le> 0xEF then
            (case r of
               b # c # _ \<Rightarrow>
                 if utf8_cont b \<and> utf8_cont c
                    \<and> (byte_val a = 0xE0 \<longrightarrow> 0xA0 \<le> byte_val b)
                    \<and> (byte_val a = 0xED \<longrightarrow> byte_val b \<le> 0x9F)
                 then Some 3 else None
             | _ \<Rightarrow> None)
          else if 0xF0 \<le> byte_val a \<and> byte_val a \<le> 0xF4 then
            (case r of
               b # c # d # _ \<Rightarrow>
                 if utf8_cont b \<and> utf8_cont c \<and> utf8_cont d
                    \<and> (byte_val a = 0xF0 \<longrightarrow> 0x90 \<le> byte_val b)
                    \<and> (byte_val a = 0xF4 \<longrightarrow> byte_val b \<le> 0x8F)
                 then Some 4 else None
             | _ \<Rightarrow> None)
          else None)"

lemma utf8_first_bounds: "utf8_first s = Some n \<Longrightarrow> 1 \<le> n \<and> n \<le> 4 \<and> n \<le> length s"
  by (auto simp: utf8_first_def split: list.splits if_splits)

text \<open>\<open>std::str::from_utf8(s).is_ok()\<close>.\<close>

function utf8_valid :: "bytes \<Rightarrow> bool" where
  "utf8_valid s =
     (s = [] \<or> (case utf8_first s of None \<Rightarrow> False | Some n \<Rightarrow> utf8_valid (drop n s)))"
  by pat_completeness auto
termination
  by (relation "measure length") (auto dest: utf8_first_bounds)

declare utf8_valid.simps [simp del]

subsection \<open>Strings\<close>

definition to_ascii_lowercase :: "string \<Rightarrow> string" where
  "to_ascii_lowercase s =
     map (\<lambda>c. if 65 \<le> byte_val c \<and> byte_val c \<le> 90 then char_of (byte_val c + 32) else c) s"

text \<open>The UTF-8 encodings of the characters with the Unicode property \<open>White_Space\<close>.\<close>

definition white_space :: "string list" where
  "white_space =
     [[CHR 0x09], [CHR 0x0A], [CHR 0x0B], [CHR 0x0C], [CHR 0x0D], [CHR 0x20],
      [CHR 0xC2, CHR 0x85], [CHR 0xC2, CHR 0xA0], [CHR 0xE1, CHR 0x9A, CHR 0x80]]
     @ map (\<lambda>k. [CHR 0xE2, CHR 0x80, char_of (k :: nat)])
         [0x80, 0x81, 0x82, 0x83, 0x84, 0x85, 0x86, 0x87, 0x88, 0x89, 0x8A, 0xA8, 0xA9, 0xAF]
     @ [[CHR 0xE2, CHR 0x81, CHR 0x9F], [CHR 0xE3, CHR 0x80, CHR 0x80]]"

text \<open>Strip the patterns of \<open>ws\<close> from the front, as long as one matches.\<close>

function strip_front :: "string list \<Rightarrow> string \<Rightarrow> string" where
  "strip_front ws s =
     (case find (\<lambda>w. w \<noteq> [] \<and> take (length w) s = w) ws of
        None \<Rightarrow> s
      | Some w \<Rightarrow> strip_front ws (drop (length w) s))"
  by pat_completeness auto
termination
proof (relation "measure (\<lambda>(ws, s). length s)")
  fix ws s w
  assume "find (\<lambda>w. w \<noteq> [] \<and> take (length w) s = w) ws = Some (w :: string)"
  then have "w \<noteq> []" and "take (length w) s = w"
    by (auto simp: find_Some_iff)
  then show "((ws, drop (length w) s), (ws, s)) \<in> measure (\<lambda>(ws, s). length s)"
    by (cases s; cases w) auto
qed simp

declare strip_front.simps [simp del]

text \<open>\<open>str::trim\<close>.\<close>

definition trim :: "string \<Rightarrow> string" where
  "trim s = rev (strip_front (map rev white_space) (rev (strip_front white_space s)))"

subsection \<open>Decimal numbers\<close>

definition usize_max :: nat where
  "usize_max = 2 ^ 64 - 1"

datatype int_error = Int_Empty | Int_InvalidDigit | Int_PosOverflow

definition to_digit :: "char \<Rightarrow> nat option" where
  "to_digit c = (if 48 \<le> byte_val c \<and> byte_val c \<le> 57 then Some (byte_val c - 48) else None)"

fun parse_digits :: "nat \<Rightarrow> string \<Rightarrow> int_error + nat" where
  "parse_digits acc [] = Inr acc"
| "parse_digits acc (c # cs) =
     (case to_digit c of
        None \<Rightarrow> Inl Int_InvalidDigit
      | Some d \<Rightarrow>
          if usize_max < acc * 10 then Inl Int_PosOverflow
          else if usize_max < acc * 10 + d then Inl Int_PosOverflow
          else parse_digits (acc * 10 + d) cs)"

text \<open>\<open>str::parse::<usize>\<close>: one leading plus sign is accepted.\<close>

definition parse_usize :: "string \<Rightarrow> int_error + nat" where
  "parse_usize s =
     (case s of
        [] \<Rightarrow> Inl Int_Empty
      | c # cs \<Rightarrow>
          if cs = [] \<and> (c = CHR ''+'' \<or> c = CHR ''-'') then Inl Int_InvalidDigit
          else if c = CHR ''+'' then parse_digits 0 cs
          else parse_digits 0 s)"

definition digit_char :: "nat \<Rightarrow> char" where
  "digit_char d = char_of (d + 48)"

text \<open>\<open>Display\<close> of an unsigned integer.\<close>

fun show_nat :: "nat \<Rightarrow> string" where
  "show_nat n = (if n < 10 then [digit_char n] else show_nat (n div 10) @ [digit_char (n mod 10)])"

declare show_nat.simps [simp del]

subsection \<open>Facts about slices\<close>

lemma length_windows [simp]: "length (windows n xs) = Suc (length xs) - n"
  by (simp add: windows_def)

lemma nth_windows:
  "i < Suc (length xs) - n \<Longrightarrow> windows n xs ! i = take n (drop i xs)"
  by (simp add: windows_def)

lemma position_Some_iff:
  "position p xs = Some i \<longleftrightarrow> i < length xs \<and> p (xs ! i) \<and> (\<forall>j<i. \<not> p (xs ! j))"
proof (induction xs arbitrary: i)
  case (Cons x xs)
  show ?case
    by (cases i) (auto simp: Cons.IH less_Suc_eq_0_disj)
qed simp

lemma position_None_iff: "position p xs = None \<longleftrightarrow> (\<forall>x\<in>set xs. \<not> p x)"
  by (induction xs) auto

subsection \<open>Facts about UTF-8\<close>

lemma utf8_valid_Nil [simp]: "utf8_valid []"
  by (simp add: utf8_valid.simps)

lemma utf8_first_ascii: "byte_val c < 128 \<Longrightarrow> utf8_first (c # s) = Some 1"
  by (simp add: utf8_first_def)

lemma utf8_valid_Cons_ascii: "byte_val c < 128 \<Longrightarrow> utf8_valid (c # s) = utf8_valid s"
  by (subst utf8_valid.simps) (simp add: utf8_first_ascii)

lemma utf8_valid_ascii: "\<forall>c\<in>set s. byte_val c < 128 \<Longrightarrow> utf8_valid s"
  by (induction s) (auto simp: utf8_valid_Cons_ascii)

subsection \<open>Facts about trimming\<close>

lemma strip_front_id:
  assumes "\<And>w. w \<in> set ws \<Longrightarrow> w \<noteq> [] \<Longrightarrow> s \<noteq> [] \<Longrightarrow> hd w \<noteq> hd s"
  shows "strip_front ws s = s"
proof -
  have "find (\<lambda>w. w \<noteq> [] \<and> take (length w) s = w) ws = None"
    unfolding find_None_iff using assms by (metis hd_take length_greater_0_conv take_eq_Nil)
  then show ?thesis
    by (subst strip_front.simps) simp
qed

lemma strip_front_step:
  assumes "find (\<lambda>w. w \<noteq> [] \<and> take (length w) s = w) ws = Some w"
  shows "strip_front ws s = strip_front ws (drop (length w) s)"
  using assms by (subst strip_front.simps) simp

lemma white_space_hd: "w \<in> set white_space \<Longrightarrow> byte_val (hd w) \<notin> {48..57}"
  by (auto simp: white_space_def)

lemma white_space_last: "w \<in> set white_space \<Longrightarrow> byte_val (last w) \<notin> {48..57}"
  by (auto simp: white_space_def)

lemma white_space_nonempty: "w \<in> set white_space \<Longrightarrow> w \<noteq> []"
  by (auto simp: white_space_def)

lemma trim_space_digits:
  assumes "ds \<noteq> []" and digits: "\<forall>c\<in>set ds. byte_val c \<in> {48..57}"
  shows "trim (CHR '' '' # ds) = ds"
proof -
  have "strip_front white_space (CHR '' '' # ds) = strip_front white_space ds"
    by (subst strip_front_step [where w = "'' ''"]) (simp_all add: white_space_def)
  also have "\<dots> = ds"
    by (rule strip_front_id) (metis assms white_space_hd hd_in_set)
  finally have front: "strip_front white_space (CHR '' '' # ds) = ds" .
  have "strip_front (map rev white_space) (rev ds) = rev ds"
  proof (rule strip_front_id)
    fix w
    assume "w \<in> set (map rev white_space)"
    then obtain v where v: "v \<in> set white_space" "w = rev v"
      by auto
    have "byte_val (hd (rev ds)) \<in> {48..57}"
      using assms by (simp add: hd_rev)
    moreover have "byte_val (hd w) \<notin> {48..57}"
      using v white_space_last by (auto simp: hd_rev)
    ultimately show "hd w \<noteq> hd (rev ds)"
      by metis
  qed
  then show ?thesis
    by (simp add: trim_def front)
qed

subsection \<open>Facts about decimal numbers\<close>

lemma byte_val_digit_char: "d < 10 \<Longrightarrow> byte_val (digit_char d) = d + 48"
  by (simp add: digit_char_def)

lemma to_digit_digit_char [simp]: "d < 10 \<Longrightarrow> to_digit (digit_char d) = Some d"
  by (simp add: to_digit_def byte_val_digit_char)

lemma show_nat_digits: "c \<in> set (show_nat n) \<Longrightarrow> byte_val c \<in> {48..57}"
proof (induction n rule: show_nat.induct)
  case (1 n)
  then show ?case
    by (subst (asm) (2) show_nat.simps) (auto simp: byte_val_digit_char split: if_splits)
qed

lemma show_nat_nonempty [simp]: "show_nat n \<noteq> []"
  by (subst show_nat.simps) simp

lemma parse_digits_append:
  "parse_digits acc (xs @ ys) = res_bind (parse_digits acc xs) (\<lambda>a. parse_digits a ys)"
  by (induction acc xs rule: parse_digits.induct) (auto split: option.splits)

lemma parse_digits_show_nat: "n \<le> usize_max \<Longrightarrow> parse_digits 0 (show_nat n) = Inr n"
proof (induction n rule: show_nat.induct)
  case (1 n)
  show ?case
  proof (cases "n < 10")
    case True
    then show ?thesis
      by (subst show_nat.simps) (simp add: usize_max_def)
  next
    case False
    have "n div 10 * 10 \<le> usize_max" and "n div 10 * 10 + n mod 10 = n"
      using "1.prems" by simp_all
    then show ?thesis
      using False 1 by (subst show_nat.simps) (simp add: parse_digits_append)
  qed
qed

lemma parse_usize_show_nat:
  assumes "n \<le> usize_max"
  shows "parse_usize (show_nat n) = Inr n"
proof -
  obtain c cs where s: "show_nat n = c # cs"
    by (cases "show_nat n") auto
  then have "byte_val c \<in> {48..57}"
    using show_nat_digits [of c n] by simp
  then have "c \<noteq> CHR ''+''" and "c \<noteq> CHR ''-''"
    by auto
  then show ?thesis
    using parse_digits_show_nat [OF assms] s by (simp add: parse_usize_def)
qed

end
