(* ===== verification/Serde_Json.thy ===== *)
theory Serde_Json
  imports Lsp_Prelude "HOL-Library.Char_ord" "HOL-Library.List_Lexorder"
begin

text \<open>
  The JSON values of \<open>serde_json\<close> as a datatype, and the documented meaning of the serde
  attributes the source writes on its types: \<open>#[derive(Deserialize)]\<close> on a struct (known
  fields once each, unknown fields ignored, a missing \<open>Option\<close> field read as \<open>None\<close>, a sequence
  read positionally), \<open>Option<T>\<close> reading \<open>null\<close> as \<open>None\<close>, and \<open>Value\<close> keeping the last of
  several equal keys. The JSON text syntax itself (\<open>to_vec\<close>, \<open>from_slice\<close>) is not modelled: the
  codec takes the two functions as arguments.

  An object is the list of its entries in the order of the text. In a document, keys may
  repeat; a \<open>Value\<close> is a document whose objects are sorted by key without repetition, as the
  \<open>BTreeMap\<close> behind \<open>serde_json::Map\<close> keeps them.
\<close>

subsection \<open>Documents and values\<close>

text \<open>\<open>serde_json::Number\<close>: a \<open>u64\<close>, a negative \<open>i64\<close>, or the bits of a finite \<open>f64\<close>.\<close>

datatype number = PosInt u64 | NegInt u64 | Float u64

datatype json =
    JNull
  | JBool bool
  | JNumber number
  | JString string
  | JArray "json list"
  | JObject "(string \<times> json) list"

datatype serde_error =
    Missing_field string
  | Duplicate_field string
  | Invalid_type
  | Invalid_value
  | Invalid_length nat
  | No_variant string
  | Custom string
  | Syntax string

text \<open>\<open>BTreeMap::insert\<close> on the sorted entries.\<close>

fun btree_insert :: "string \<Rightarrow> 'v \<Rightarrow> (string \<times> 'v) list \<Rightarrow> (string \<times> 'v) list" where
  "btree_insert k v [] = [(k, v)]"
| "btree_insert k v ((k', v') # es) =
     (if k < k' then (k, v) # (k', v') # es
      else if k = k' then (k, v) # es
      else (k', v') # btree_insert k v es)"

definition btree_of :: "(string \<times> 'v) list \<Rightarrow> (string \<times> 'v) list" where
  "btree_of es = fold (\<lambda>(k, v). btree_insert k v) es []"

text \<open>\<open>Value::deserialize\<close> on a document.\<close>

primrec to_value :: "json \<Rightarrow> json" where
  "to_value JNull = JNull"
| "to_value (JBool b) = JBool b"
| "to_value (JNumber n) = JNumber n"
| "to_value (JString s) = JString s"
| "to_value (JArray vs) = JArray (map to_value vs)"
| "to_value (JObject es) = JObject (btree_of (map (map_prod id to_value) es))"

text \<open>The documents that are a \<open>Value\<close>.\<close>

fun is_value :: "json \<Rightarrow> bool" where
  "is_value (JArray vs) = (\<forall>v\<in>set vs. is_value v)"
| "is_value (JObject es) =
     (sorted_wrt (<) (map fst es) \<and> (\<forall>e\<in>set es. is_value (snd e)))"
| "is_value _ = True"

subsection \<open>Numbers\<close>

definition i32_min :: int where
  "i32_min = - (2 ^ 31)"

definition i32_max :: int where
  "i32_max = 2 ^ 31 - 1"

text \<open>\<open>i32::try_from\<close> on an integer.\<close>

definition i32_try_from :: "int \<Rightarrow> i32 option" where
  "i32_try_from i = (if i32_min \<le> i \<and> i \<le> i32_max then Some (word_of_int i) else None)"

text \<open>\<open>Number::as_i64\<close>.\<close>

definition as_i64 :: "number \<Rightarrow> int option" where
  "as_i64 n =
     (case n of
        PosInt u \<Rightarrow> if uint u < 2 ^ 63 then Some (uint u) else None
      | NegInt u \<Rightarrow> Some (sint u)
      | Float _ \<Rightarrow> None)"

text \<open>The number an \<open>i32\<close> serialises to.\<close>

definition number_of_i32 :: "i32 \<Rightarrow> number" where
  "number_of_i32 n =
     (if 0 \<le> sint n then PosInt (word_of_int (sint n)) else NegInt (word_of_int (sint n)))"

text \<open>\<open>i32::deserialize\<close>: integers in range only.\<close>

definition i32_deserialize :: "json \<Rightarrow> serde_error + i32" where
  "i32_deserialize d =
     (case d of
        JNumber (PosInt u) \<Rightarrow>
          (case i32_try_from (uint u) of None \<Rightarrow> Inl Invalid_value | Some n \<Rightarrow> Inr n)
      | JNumber (NegInt u) \<Rightarrow>
          (case i32_try_from (sint u) of None \<Rightarrow> Inl Invalid_value | Some n \<Rightarrow> Inr n)
      | _ \<Rightarrow> Inl Invalid_type)"

definition string_deserialize :: "json \<Rightarrow> serde_error + string" where
  "string_deserialize d = (case d of JString s \<Rightarrow> Inr s | _ \<Rightarrow> Inl Invalid_type)"

text \<open>\<open>Option<Value>::deserialize\<close>.\<close>

definition option_value_deserialize :: "json \<Rightarrow> serde_error + json option" where
  "option_value_deserialize d = (case d of JNull \<Rightarrow> Inr None | _ \<Rightarrow> Inr (Some (to_value d)))"

text \<open>What \<open>Option<Value>\<close> keeps of an optional value: \<open>Some(Null)\<close> reads back as \<open>None\<close>.\<close>

definition drop_null :: "json option \<Rightarrow> json option" where
  "drop_null v = (if v = Some JNull then None else v)"

subsection \<open>Access to values\<close>

text \<open>\<open>Value::get\<close> with a string index, \<open>Value::as_str\<close>, \<open>Value::as_object\<close>.\<close>

definition value_get :: "json \<Rightarrow> string \<Rightarrow> json option" where
  "value_get v k = (case v of JObject es \<Rightarrow> map_of es k | _ \<Rightarrow> None)"

definition as_str :: "json \<Rightarrow> string option" where
  "as_str v = (case v of JString s \<Rightarrow> Some s | _ \<Rightarrow> None)"

definition as_object :: "json \<Rightarrow> (string \<times> json) list option" where
  "as_object v = (case v of JObject es \<Rightarrow> Some es | _ \<Rightarrow> None)"

subsection \<open>Derived struct deserialisers\<close>

text \<open>The values a field of the source's structs can hold.\<close>

datatype 'i field = F_str string | F_id 'i | F_opt "json option" | F_i32 i32

text \<open>
  The generated \<open>visit_map\<close>: entries in order, a repeated known field is an error, the first
  field that fails to deserialise ends the visit.
\<close>

type_synonym 'i decoders = "(string \<times> (json \<Rightarrow> serde_error + 'i field)) list"

fun visit_map ::
  "'i decoders \<Rightarrow> (string \<times> json) list \<Rightarrow> (string \<rightharpoonup> 'i field)
     \<Rightarrow> serde_error + (string \<rightharpoonup> 'i field)" where
  "visit_map ds [] acc = Inr acc"
| "visit_map ds ((k, v) # es) acc =
     (case map_of ds k of
        None \<Rightarrow> visit_map ds es acc
      | Some d \<Rightarrow>
          if acc k \<noteq> None then Inl (Duplicate_field k)
          else res_bind (d v) (\<lambda>f. visit_map ds es (acc(k \<mapsto> f))))"

text \<open>The generated \<open>visit_seq\<close>: one element per field in declaration order, none left over.\<close>

fun visit_seq ::
  "nat \<Rightarrow> 'i decoders \<Rightarrow> json list \<Rightarrow> (string \<rightharpoonup> 'i field)
     \<Rightarrow> serde_error + (string \<rightharpoonup> 'i field)" where
  "visit_seq i [] [] acc = Inr acc"
| "visit_seq i [] (v # vs) acc = Inl (Invalid_length (i + length (v # vs)))"
| "visit_seq i (kd # ds) [] acc = Inl (Invalid_length i)"
| "visit_seq i ((k, d) # ds) (v # vs) acc =
     res_bind (d v) (\<lambda>f. visit_seq (Suc i) ds vs (acc(k \<mapsto> f)))"

definition derive_fields :: "'i decoders \<Rightarrow> json \<Rightarrow> serde_error + (string \<rightharpoonup> 'i field)" where
  "derive_fields ds d =
     (case d of
        JObject es \<Rightarrow> visit_map ds es Map.empty
      | JArray vs \<Rightarrow> visit_seq 0 ds vs Map.empty
      | _ \<Rightarrow> Inl Invalid_type)"

text \<open>Reading a collected field; an absent \<open>Option\<close> field is \<open>None\<close>.\<close>

definition field_str :: "string \<Rightarrow> (string \<rightharpoonup> 'i field) \<Rightarrow> serde_error + string" where
  "field_str k m = (case m k of Some (F_str s) \<Rightarrow> Inr s | _ \<Rightarrow> Inl (Missing_field k))"

definition field_id :: "string \<Rightarrow> (string \<rightharpoonup> 'i field) \<Rightarrow> serde_error + 'i" where
  "field_id k m = (case m k of Some (F_id i) \<Rightarrow> Inr i | _ \<Rightarrow> Inl (Missing_field k))"

definition field_i32 :: "string \<Rightarrow> (string \<rightharpoonup> 'i field) \<Rightarrow> serde_error + i32" where
  "field_i32 k m = (case m k of Some (F_i32 n) \<Rightarrow> Inr n | _ \<Rightarrow> Inl (Missing_field k))"

definition field_opt :: "string \<Rightarrow> (string \<rightharpoonup> 'i field) \<Rightarrow> json option" where
  "field_opt k m = (case m k of Some (F_opt v) \<Rightarrow> v | _ \<Rightarrow> None)"

definition str_field :: "json \<Rightarrow> serde_error + 'i field" where
  "str_field d = res_bind (string_deserialize d) (\<lambda>s. Inr (F_str s))"

definition i32_field :: "json \<Rightarrow> serde_error + 'i field" where
  "i32_field d = res_bind (i32_deserialize d) (\<lambda>n. Inr (F_i32 n))"

definition opt_field :: "json \<Rightarrow> serde_error + 'i field" where
  "opt_field d = res_bind (option_value_deserialize d) (\<lambda>v. Inr (F_opt v))"

lemmas field_defs [serde_simps] =
  str_field_def i32_field_def opt_field_def field_str_def field_id_def field_i32_def field_opt_def
  string_deserialize_def option_value_deserialize_def

subsection \<open>Facts about sorted entries\<close>

lemma set_keys_btree_insert: "fst ` set (btree_insert k v es) = insert k (fst ` set es)"
  by (induction k v es rule: btree_insert.induct) auto

lemma btree_insert_sorted:
  "sorted_wrt (<) (map fst es) \<Longrightarrow> sorted_wrt (<) (map fst (btree_insert k v es))"
proof (induction k v es rule: btree_insert.induct)
  case (2 k v k' v' es)
  have keys: "set (map fst (btree_insert k v es)) = insert k (fst ` set es)"
    by (simp add: set_keys_btree_insert)
  show ?case
    using 2 keys by (auto simp: set_keys_btree_insert [of k v es, simplified])
qed simp

lemma map_of_btree_insert:
  "sorted_wrt (<) (map fst es) \<Longrightarrow> map_of (btree_insert k v es) = (map_of es)(k \<mapsto> v)"
proof (induction k v es rule: btree_insert.induct)
  case (2 k v k' v' es)
  then show ?case
    by (auto simp: fun_eq_iff)
qed simp

lemma btree_fold:
  assumes "sorted_wrt (<) (map fst acc)"
  shows "sorted_wrt (<) (map fst (fold (\<lambda>(k, v). btree_insert k v) es acc))
       \<and> map_of (fold (\<lambda>(k, v). btree_insert k v) es acc) = map_of acc ++ map_of (rev es)"
  using assms
proof (induction es arbitrary: acc)
  case (Cons e es)
  obtain k v where e: "e = (k, v)"
    by (cases e)
  have "sorted_wrt (<) (map fst (btree_insert k v acc))"
    using Cons.prems by (rule btree_insert_sorted)
  from Cons.IH [OF this] show ?case
    by (simp add: e map_of_btree_insert [OF Cons.prems] map_add_def fun_eq_iff split: option.splits)
qed simp

lemma btree_of_sorted: "sorted_wrt (<) (map fst (btree_of es))"
  using btree_fold [of "[]" es] by (simp add: btree_of_def)

text \<open>The last of several equal keys wins.\<close>

lemma map_of_btree_of: "map_of (btree_of es) = map_of (rev es)"
  using btree_fold [of "[]" es] by (simp add: btree_of_def)

lemma btree_insert_last:
  "\<forall>k'\<in>fst ` set es. k' < k \<Longrightarrow> btree_insert k v es = es @ [(k, v)]"
  by (induction k v es rule: btree_insert.induct) (auto dest: order.strict_implies_not_eq)

lemma btree_of_id: "sorted_wrt (<) (map fst es) \<Longrightarrow> btree_of es = es"
proof -
  have "sorted_wrt (<) (map fst (acc @ es)) \<Longrightarrow>
      fold (\<lambda>(k, v). btree_insert k v) es acc = acc @ es" for acc
  proof (induction es arbitrary: acc)
    case (Cons e es)
    obtain k v where e: "e = (k, v)"
      by (cases e)
    have "btree_insert k v acc = acc @ [(k, v)]"
      using Cons.prems by (intro btree_insert_last) (auto simp: e sorted_wrt_append)
    then show ?case
      using Cons.IH [of "acc @ [(k, v)]"] Cons.prems by (simp add: e)
  qed simp
  from this [of "[]"] show "sorted_wrt (<) (map fst es) \<Longrightarrow> btree_of es = es"
    by (simp add: btree_of_def)
qed

lemma set_btree_of_subset: "set (btree_of es) \<subseteq> set es"
proof -
  have ins: "set (btree_insert k v es) \<subseteq> insert (k, v) (set es)" for k v and es :: "(string \<times> 'v) list"
    by (induction k v es rule: btree_insert.induct) auto
  have "set (fold (\<lambda>(k, v). btree_insert k v) es acc) \<subseteq> set acc \<union> set es" for acc
    by (induction es arbitrary: acc) (use ins in fastforce)+
  from this [of "[]"] show ?thesis
    by (simp add: btree_of_def)
qed

lemma is_value_to_value: "is_value (to_value d)"
proof (induction d)
  case (JObject es)
  have "is_value (snd e)" if "e \<in> set (btree_of (map (map_prod id to_value) es))" for e
    using that set_btree_of_subset [of "map (map_prod id to_value) es"] JObject by fastforce
  then show ?case
    by (simp add: btree_of_sorted)
qed auto

lemma to_value_id: "is_value d \<Longrightarrow> to_value d = d"
proof (induction d)
  case (JArray vs)
  then show ?case
    by (simp add: map_idI)
next
  case (JObject es)
  have "map (map_prod id to_value) es = es"
    using JObject by (intro map_idI) (fastforce simp: prod_set_simps)
  then show ?case
    using JObject.prems by (simp add: btree_of_id)
qed auto

lemma to_value_eq_JNull_iff [simp]: "to_value d = JNull \<longleftrightarrow> d = JNull"
  by (cases d) simp_all

lemma option_value_deserialize_value:
  "is_value v \<Longrightarrow> v \<noteq> JNull \<Longrightarrow> option_value_deserialize v = Inr (Some v)"
  by (cases v) (simp_all add: option_value_deserialize_def to_value_id del: to_value.simps is_value.simps)

lemma option_value_deserialize_drop_null:
  "is_value v \<Longrightarrow> option_value_deserialize v = Inr (drop_null (Some v))"
  by (cases "v = JNull")
    (simp_all add: option_value_deserialize_value drop_null_def, simp add: option_value_deserialize_def)

lemma drop_null_None [simp]: "drop_null None = None"
  by (simp add: drop_null_def)

subsection \<open>Facts about numbers\<close>

lemma i32_sint_bounds: "i32_min \<le> sint (n :: i32)" "sint (n :: i32) \<le> i32_max"
  using sint_range_size [of n] by (simp_all add: i32_min_def i32_max_def word_size)

lemma i32_try_from_sint [simp]: "i32_try_from (sint n) = Some n"
  by (simp add: i32_try_from_def i32_sint_bounds)

lemma i32_try_from_Some_iff:
  "i32_try_from i = Some n \<longleftrightarrow> i = sint n"
proof
  assume a: "i32_try_from i = Some n"
  then have "- (2 ^ 31) \<le> i" "i < 2 ^ 31" "n = word_of_int i"
    by (auto simp: i32_try_from_def i32_min_def i32_max_def split: if_splits)
  then show "i = sint n"
    by (simp add: sint_sbintrunc' signed_take_bit_int_eq_self)
qed simp

lemma u64_of_int:
  "0 \<le> i \<Longrightarrow> i < 2 ^ 63 \<Longrightarrow> uint (word_of_int i :: u64) = i"
  "- (2 ^ 63) \<le> i \<Longrightarrow> i < 2 ^ 63 \<Longrightarrow> sint (word_of_int i :: u64) = i"
  by (simp_all add: uint_word_of_int sint_sbintrunc' signed_take_bit_int_eq_self)

lemma i32_deserialize_number:
  "i32_deserialize (JNumber (number_of_i32 n)) = Inr n"
proof -
  have b: "- (2 ^ 31) \<le> sint n" "sint n < 2 ^ 31"
    using i32_sint_bounds [of n] by (simp_all add: i32_min_def i32_max_def)
  show ?thesis
  proof (cases "0 \<le> sint n")
    case True
    then have "uint (word_of_int (sint n) :: u64) = sint n"
      using b by (intro u64_of_int) simp_all
    with True show ?thesis
      by (simp add: i32_deserialize_def number_of_i32_def)
  next
    case False
    have "sint (word_of_int (sint n) :: u64) = sint n"
      using b by (intro u64_of_int) simp_all
    with False show ?thesis
      by (simp add: i32_deserialize_def number_of_i32_def)
  qed
qed

text \<open>The two ways the source reads an \<open>i32\<close> from a number accept the same numbers.\<close>

lemma i32_deserialize_as_i64:
  "res_ok (i32_deserialize (JNumber n)) = Option.bind (as_i64 n) i32_try_from"
  by (cases n) (auto simp: i32_deserialize_def as_i64_def i32_try_from_def i32_max_def
      split: option.splits)

subsection \<open>Facts about derived deserialisers\<close>

text \<open>
  The known fields occur once and each of them deserialises; the collected map then holds the
  deserialised value of every known field that occurs.
\<close>

definition fields_ok :: "'i decoders \<Rightarrow> (string \<times> json) list \<Rightarrow> bool" where
  "fields_ok ds es \<longleftrightarrow>
     distinct (filter (\<lambda>k. map_of ds k \<noteq> None) (map fst es))
     \<and> (\<forall>k v d. (k, v) \<in> set es \<longrightarrow> map_of ds k = Some d \<longrightarrow> (\<exists>f. d v = Inr f))"

definition collect :: "'i decoders \<Rightarrow> (string \<times> json) list \<Rightarrow> string \<rightharpoonup> 'i field" where
  "collect ds es k =
     (case map_of ds k of
        None \<Rightarrow> None
      | Some d \<Rightarrow> Option.bind (map_of es k) (\<lambda>v. res_ok (d v)))"

lemma fields_ok_Cons:
  "fields_ok ds ((k, v) # es) \<longleftrightarrow>
     (case map_of ds k of
        None \<Rightarrow> fields_ok ds es
      | Some d \<Rightarrow> k \<notin> fst ` set es \<and> (\<exists>f. d v = Inr f) \<and> fields_ok ds es)"
  by (cases "map_of ds k") (auto simp: fields_ok_def)

lemma collect_Nil [simp]: "collect ds [] k = None"
  by (simp add: collect_def split: option.split)

lemma collect_Cons [simp]:
  "collect ds ((k, v) # es) k' =
     (if k' = k then Option.bind (map_of ds k) (\<lambda>d. res_ok (d v)) else collect ds es k')"
  by (cases "map_of ds k'") (auto simp: collect_def)

lemma collect_unknown: "map_of ds k = None \<Longrightarrow> collect ds es k = None"
  by (simp add: collect_def)

lemma collect_absent: "k \<notin> fst ` set es \<Longrightarrow> collect ds es k = None"
  by (induction es) auto

lemma visit_map_iff_gen:
  "visit_map ds es acc = Inr m \<longleftrightarrow>
     fields_ok ds es \<and> (\<forall>k\<in>fst ` set es. map_of ds k \<noteq> None \<longrightarrow> acc k = None)
     \<and> m = (\<lambda>k. case collect ds es k of None \<Rightarrow> acc k | Some f \<Rightarrow> Some f)"
proof (induction ds es acc arbitrary: m rule: visit_map.induct)
  case (1 ds acc)
  show ?case
    by (auto simp: fields_ok_def)
next
  case (2 ds k v es acc)
  show ?case
  proof (cases "map_of ds k")
    case None
    then have "collect ds ((k, v) # es) = collect ds es"
      by (auto simp: fun_eq_iff collect_unknown)
    then show ?thesis
      using None 2(1) by (auto simp: fields_ok_Cons)
  next
    case (Some d)
    show ?thesis
    proof (cases "acc k = None \<and> (\<exists>f. d v = Inr f)")
      case False
      then show ?thesis
        using Some by (cases "d v") (auto simp: fields_ok_Cons)
    next
      case True
      then obtain f where f: "d v = Inr f" and a: "acc k = None"
        by auto
      have "(\<lambda>k'. case collect ds ((k, v) # es) k' of None \<Rightarrow> acc k' | Some g \<Rightarrow> Some g)
          = (\<lambda>k'. case collect ds es k' of None \<Rightarrow> (acc(k \<mapsto> f)) k' | Some g \<Rightarrow> Some g)"
        (is "?l = ?r") if "k \<notin> fst ` set es"
      proof
        fix k'
        show "?l k' = ?r k'"
          using Some f that by (auto simp: collect_absent split: option.split)
      qed
      note merge = this
      have IH: "visit_map ds es (acc(k \<mapsto> f)) = Inr m \<longleftrightarrow>
          fields_ok ds es
          \<and> (\<forall>k'\<in>fst ` set es. map_of ds k' \<noteq> None \<longrightarrow> (acc(k \<mapsto> f)) k' = None)
          \<and> m = (\<lambda>k'. case collect ds es k' of None \<Rightarrow> (acc(k \<mapsto> f)) k' | Some g \<Rightarrow> Some g)" for m
        using Some a by (intro 2(2)) auto
      have step: "visit_map ds ((k, v) # es) acc = visit_map ds es (acc(k \<mapsto> f))"
        using Some f a by simp
      show ?thesis
      proof (cases "k \<in> fst ` set es")
        case True
        then show ?thesis
          unfolding step IH using Some by (auto simp: fields_ok_Cons)
      next
        case False
        have "(\<forall>k'\<in>fst ` set es. map_of ds k' \<noteq> None \<longrightarrow> (acc(k \<mapsto> f)) k' = None) \<longleftrightarrow>
            (\<forall>k'\<in>fst ` set ((k, v) # es). map_of ds k' \<noteq> None \<longrightarrow> acc k' = None)"
          using False a by (auto; metis image_eqI fst_conv)
        then show ?thesis
          unfolding step IH merge [OF False] using False Some f by (simp add: fields_ok_Cons)
      qed
    qed
  qed
qed

lemma visit_map_iff [serde_simps]:
  "visit_map ds es Map.empty = Inr m \<longleftrightarrow> fields_ok ds es \<and> m = collect ds es"
proof -
  have "(\<lambda>k. case collect ds es k of None \<Rightarrow> Map.empty k | Some f \<Rightarrow> Some f) = collect ds es"
    by (auto simp: fun_eq_iff split: option.splits)
  then show ?thesis
    unfolding visit_map_iff_gen by auto
qed

subsection \<open>What a derived deserialiser collects\<close>

text \<open>
  An optional value as deserialisation leaves it: a \<open>Value\<close> whose objects are sorted, and never
  \<open>Some(Null)\<close>.
\<close>

definition opt_canonical :: "json option \<Rightarrow> bool" where
  "opt_canonical v \<longleftrightarrow> v \<noteq> Some JNull \<and> (\<forall>x. v = Some x \<longrightarrow> is_value x)"

fun field_canonical :: "'i field \<Rightarrow> bool" where
  "field_canonical (F_opt v) = opt_canonical v"
| "field_canonical _ = True"

lemma to_value_neq_null: "d \<noteq> JNull \<Longrightarrow> to_value d \<noteq> JNull"
  by (cases d) simp_all

lemma opt_field_canonical: "opt_field d = Inr f \<Longrightarrow> field_canonical f"
  using is_value_to_value [of d] to_value_neq_null [of d]
  by (cases d) (auto simp: opt_field_def option_value_deserialize_def opt_canonical_def)

lemma visit_map_field:
  assumes "visit_map ds es acc = Inr m" and "m k = Some f"
  shows "acc k = Some f \<or> (\<exists>d v. (k, d) \<in> set ds \<and> d v = Inr f)"
  using assms
proof (induction es arbitrary: acc)
  case (Cons e es)
  obtain j v where e: "e = (j, v)"
    by (cases e)
  show ?case
  proof (cases "map_of ds j")
    case None
    then show ?thesis
      using Cons by (simp add: e)
  next
    case (Some d)
    then obtain a where a: "d v = Inr a" "visit_map ds es (acc(j \<mapsto> a)) = Inr m"
      using Cons.prems(1) by (auto simp: e res_bind_Inr_iff split: if_splits)
    show ?thesis
      using Cons.IH [OF a(2) Cons.prems(2)] a(1) map_of_SomeD [OF Some] by (auto split: if_splits)
  qed
qed simp

lemma visit_seq_field:
  assumes "visit_seq i ds vs acc = Inr m" and "m k = Some f"
  shows "acc k = Some f \<or> (\<exists>d v. (k, d) \<in> set ds \<and> d v = Inr f)"
  using assms
proof (induction i ds vs acc rule: visit_seq.induct)
  case (4 i j d ds v vs acc)
  then obtain a where a: "d v = Inr a" "visit_seq (Suc i) ds vs (acc(j \<mapsto> a)) = Inr m"
    by (auto simp: res_bind_Inr_iff)
  show ?case
    using "4.IH" [OF a(2) "4.prems"(2)] a(1) by (auto split: if_splits)
qed simp_all

lemma derive_fields_field:
  assumes "derive_fields ds d = Inr m" and "m k = Some f"
  shows "\<exists>g v. (k, g) \<in> set ds \<and> g v = Inr f"
  using assms visit_map_field [of ds _ Map.empty m k f] visit_seq_field [of 0 ds _ Map.empty m k f]
  by (auto simp: derive_fields_def split: json.splits)

lemma field_opt_canonical:
  assumes "derive_fields ds d = Inr m" and "\<And>g. (k, g) \<in> set ds \<Longrightarrow> g = opt_field"
  shows "opt_canonical (field_opt k m)"
proof (cases "m k")
  case (Some f)
  then have "field_canonical f"
    using derive_fields_field [OF assms(1) Some] assms(2) opt_field_canonical by blast
  then show ?thesis
    using Some by (cases f) (simp_all add: field_opt_def opt_canonical_def)
qed (simp add: field_opt_def opt_canonical_def)

lemma opt_canonical_drop_null [simp]: "opt_canonical v \<Longrightarrow> drop_null v = v"
  by (simp add: opt_canonical_def drop_null_def)

end
