(* ===== verification/Request_Id.thy ===== *)
theory Request_Id
  imports Rust_Std Serde_Json
begin

text \<open>
  \<open>src/src/request_id.rs\<close>: the request identifier, its conversions, its display form and its
  untagged JSON form. \<open>#[serde(untagged)]\<close> tries the variants in order and takes the first that
  deserialises.
\<close>

datatype request_id = IntegerId i32 | StringId string

definition request_id_display :: "request_id \<Rightarrow> string" where
  "request_id_display i =
     (case i of
        IntegerId n \<Rightarrow>
          (if 0 \<le> sint n then show_nat (nat (sint n)) else CHR ''-'' # show_nat (nat (- sint n)))
      | StringId s \<Rightarrow> s)"

definition request_id_from_i32 :: "i32 \<Rightarrow> request_id" where
  "request_id_from_i32 n = IntegerId n"

definition request_id_from_string :: "string \<Rightarrow> request_id" where
  "request_id_from_string s = StringId s"

definition request_id_from_str :: "string \<Rightarrow> request_id" where
  "request_id_from_str s = StringId s"

definition request_id_serialize :: "request_id \<Rightarrow> json" where
  "request_id_serialize i =
     (case i of IntegerId n \<Rightarrow> JNumber (number_of_i32 n) | StringId s \<Rightarrow> JString s)"

definition request_id_deserialize :: "json \<Rightarrow> serde_error + request_id" where
  "request_id_deserialize d =
     (case i32_deserialize d of
        Inr n \<Rightarrow> Inr (IntegerId n)
      | Inl _ \<Rightarrow>
          (case string_deserialize d of
             Inr s \<Rightarrow> Inr (StringId s)
           | Inl _ \<Rightarrow> Inl (No_variant ''RequestId'')))"

definition id_field :: "json \<Rightarrow> serde_error + request_id field" where
  "id_field d = res_bind (request_id_deserialize d) (\<lambda>i. Inr (F_id i))"

subsection \<open>Round trip\<close>

lemma i32_deserialize_JString [simp]: "i32_deserialize (JString s) = Inl Invalid_type"
  by (simp add: i32_deserialize_def)

lemma request_id_roundtrip [simp]:
  "request_id_deserialize (request_id_serialize i) = Inr i"
  by (cases i) (simp_all add: request_id_deserialize_def request_id_serialize_def
      i32_deserialize_number string_deserialize_def)

lemma request_id_serialize_not_null [simp]: "request_id_serialize i \<noteq> JNull"
  by (simp add: request_id_serialize_def split: request_id.split)

lemma is_value_request_id [simp]: "is_value (request_id_serialize i)"
  by (simp add: request_id_serialize_def split: request_id.split)

lemma to_value_request_id [simp]: "to_value (request_id_serialize i) = request_id_serialize i"
  by (simp add: to_value_id)

lemma request_id_deserialize_null [simp]:
  "request_id_deserialize JNull = Inl (No_variant ''RequestId'')"
  by (simp add: request_id_deserialize_def i32_deserialize_def string_deserialize_def)

lemma request_id_deserialize_JString [simp]:
  "request_id_deserialize (JString s) = Inr (StringId s)"
  by (simp add: request_id_deserialize_def i32_deserialize_def string_deserialize_def)

text \<open>A document is an identifier exactly when it is a string or an integer in the \<open>i32\<close> range.\<close>

lemma request_id_deserialize_iff:
  "request_id_deserialize d = Inr i \<longleftrightarrow>
     (case i of
        IntegerId n \<Rightarrow> \<exists>m. d = JNumber m \<and> as_i64 m = Some (sint n)
      | StringId s \<Rightarrow> d = JString s)"
proof (cases d)
  case (JNumber m)
  have n: "i32_deserialize d = Inr n \<longleftrightarrow> as_i64 m = Some (sint n)" for n
  proof -
    have "i32_deserialize d = Inr n \<longleftrightarrow> Option.bind (as_i64 m) i32_try_from = Some n"
      unfolding JNumber i32_deserialize_as_i64 [symmetric] by simp
    then show ?thesis
      by (auto simp: bind_eq_Some_conv i32_try_from_Some_iff)
  qed
  show ?thesis
  proof (cases "i32_deserialize d")
    case (Inl e)
    then have "as_i64 m \<noteq> Some (sint k)" for k :: i32
      using n [of k] by simp
    then show ?thesis
      using Inl by (auto simp: request_id_deserialize_def JNumber string_deserialize_def
          split: request_id.split)
  next
    case (Inr k)
    then have "as_i64 m = Some (sint k)"
      using n by simp
    then show ?thesis
      using Inr by (auto simp: request_id_deserialize_def JNumber intro: signed_word_eqI
          split: request_id.split)
  qed
qed (auto simp: request_id_deserialize_def i32_deserialize_def string_deserialize_def
      split: request_id.splits)

lemma request_id_serialize_inj [simp]:
  "request_id_serialize i = request_id_serialize j \<longleftrightarrow> i = j"
  by (metis request_id_roundtrip sum.inject(2))

end
