(* ===== verification/Rpc_Error.thy ===== *)
theory Rpc_Error
  imports Request_Id
begin

text \<open>
  \<open>src/src/error.rs\<close>: the error codes of JSON-RPC and LSP with their conversions to and from
  \<open>i32\<close>, and the error object of a response.
\<close>

datatype error_code =
    ParseError
  | InvalidRequest
  | MethodNotFound
  | InvalidParams
  | InternalError
  | ServerNotInitialized
  | UnknownErrorCode
  | RequestFailed
  | ServerCancelled
  | ContentModified
  | RequestCancelled

text \<open>The \<open>#[repr(i32)]\<close> discriminants, and \<open>From<ErrorCode> for i32\<close>.\<close>

fun error_code_to_i32 :: "error_code \<Rightarrow> i32" where
  "error_code_to_i32 ParseError = - 32700"
| "error_code_to_i32 InvalidRequest = - 32600"
| "error_code_to_i32 MethodNotFound = - 32601"
| "error_code_to_i32 InvalidParams = - 32602"
| "error_code_to_i32 InternalError = - 32603"
| "error_code_to_i32 ServerNotInitialized = - 32002"
| "error_code_to_i32 UnknownErrorCode = - 32001"
| "error_code_to_i32 RequestFailed = - 32803"
| "error_code_to_i32 ServerCancelled = - 32802"
| "error_code_to_i32 ContentModified = - 32801"
| "error_code_to_i32 RequestCancelled = - 32800"

text \<open>\<open>TryFrom<i32> for ErrorCode\<close>.\<close>

definition error_code_try_from :: "i32 \<Rightarrow> i32 + error_code" where
  "error_code_try_from code =
     (if code = - 32700 then Inr ParseError
      else if code = - 32600 then Inr InvalidRequest
      else if code = - 32601 then Inr MethodNotFound
      else if code = - 32602 then Inr InvalidParams
      else if code = - 32603 then Inr InternalError
      else if code = - 32002 then Inr ServerNotInitialized
      else if code = - 32001 then Inr UnknownErrorCode
      else if code = - 32803 then Inr RequestFailed
      else if code = - 32802 then Inr ServerCancelled
      else if code = - 32801 then Inr ContentModified
      else if code = - 32800 then Inr RequestCancelled
      else Inl code)"

record response_error =
  err_code :: i32
  err_message :: string
  err_data :: "json option"

definition response_error_new :: "error_code \<Rightarrow> string \<Rightarrow> response_error" where
  "response_error_new code msg =
     \<lparr>err_code = error_code_to_i32 code, err_message = msg, err_data = None\<rparr>"

definition response_error_new_raw :: "i32 \<Rightarrow> string \<Rightarrow> response_error" where
  "response_error_new_raw code msg = \<lparr>err_code = code, err_message = msg, err_data = None\<rparr>"

definition response_error_with_data :: "response_error \<Rightarrow> json \<Rightarrow> response_error" where
  "response_error_with_data e d = e\<lparr>err_data := Some d\<rparr>"

definition response_error_code :: "response_error \<Rightarrow> error_code option" where
  "response_error_code e = res_ok (error_code_try_from (err_code e))"

text \<open>The derived serialiser, with \<open>skip_serializing_if = "Option::is_none"\<close> on \<open>data\<close>.\<close>

definition response_error_serialize :: "response_error \<Rightarrow> json" where
  "response_error_serialize e =
     JObject ([(''code'', JNumber (number_of_i32 (err_code e))), (''message'', JString (err_message e))]
       @ (case err_data e of None \<Rightarrow> [] | Some d \<Rightarrow> [(''data'', d)]))"

definition response_error_decoders :: "request_id decoders" where
  "response_error_decoders = [(''code'', i32_field), (''message'', str_field), (''data'', opt_field)]"

definition response_error_deserialize :: "json \<Rightarrow> serde_error + response_error" where
  "response_error_deserialize d =
     res_bind (derive_fields response_error_decoders d) (\<lambda>m.
     res_bind (field_i32 ''code'' m) (\<lambda>c.
     res_bind (field_str ''message'' m) (\<lambda>t.
     Inr \<lparr>err_code = c, err_message = t, err_data = field_opt ''data'' m\<rparr>)))"

subsection \<open>Error codes\<close>

lemma error_code_try_from_to_i32 [simp]: "error_code_try_from (error_code_to_i32 c) = Inr c"
  by (cases c) (simp_all add: error_code_try_from_def)

lemma error_code_try_from_Inr: "error_code_try_from n = Inr c \<longleftrightarrow> n = error_code_to_i32 c"
proof
  assume "error_code_try_from n = Inr c"
  then show "n = error_code_to_i32 c"
    by (auto simp: error_code_try_from_def split: if_splits)
qed simp

lemma error_code_try_from_Inl: "error_code_try_from n = Inl m \<Longrightarrow> m = n"
  by (auto simp: error_code_try_from_def split: if_splits)

subsection \<open>The error object\<close>

definition response_error_wf :: "response_error \<Rightarrow> bool" where
  "response_error_wf e \<longleftrightarrow> (\<forall>d. err_data e = Some d \<longrightarrow> is_value d)"

definition response_error_canon :: "response_error \<Rightarrow> response_error" where
  "response_error_canon e = e\<lparr>err_data := drop_null (err_data e)\<rparr>"

lemma response_error_roundtrip:
  assumes "response_error_wf e"
  shows "response_error_deserialize (response_error_serialize e) = Inr (response_error_canon e)"
proof (cases "err_data e")
  case None
  then show ?thesis
    by (simp add: response_error_deserialize_def response_error_serialize_def
        response_error_decoders_def derive_fields_def response_error_canon_def
        serde_simps i32_deserialize_number del: visit_map_iff)
next
  case (Some d)
  then have "is_value d"
    using assms by (simp add: response_error_wf_def)
  then show ?thesis
    using Some by (simp add: response_error_deserialize_def response_error_serialize_def
        response_error_decoders_def derive_fields_def response_error_canon_def
        str_field_def i32_field_def opt_field_def field_str_def field_i32_def field_opt_def
        string_deserialize_def option_value_deserialize_drop_null i32_deserialize_number)
qed

lemma response_error_serialize_neq_null [simp]: "response_error_serialize e \<noteq> JNull"
  by (simp add: response_error_serialize_def)

text \<open>A response's error object is read from a \<open>Value\<close>, whose entries are sorted by key.\<close>

lemma response_error_value_roundtrip:
  assumes "response_error_wf e"
  shows "response_error_deserialize (to_value (response_error_serialize e))
           = Inr (response_error_canon e)"
proof (cases "err_data e")
  case None
  then show ?thesis
    by (simp add: response_error_deserialize_def response_error_serialize_def btree_of_def
        response_error_decoders_def derive_fields_def response_error_canon_def
        serde_simps i32_deserialize_number del: visit_map_iff)
next
  case (Some d)
  then have "is_value d"
    using assms by (simp add: response_error_wf_def)
  then show ?thesis
    using Some by (simp add: response_error_deserialize_def response_error_serialize_def
        btree_of_def response_error_decoders_def derive_fields_def response_error_canon_def
        str_field_def i32_field_def opt_field_def field_str_def field_i32_def field_opt_def
        string_deserialize_def option_value_deserialize_drop_null i32_deserialize_number
        to_value_id)
qed

lemma response_error_deserialize_canonical:
  assumes "response_error_deserialize d = Inr e"
  shows "response_error_wf e \<and> response_error_canon e = e"
proof -
  obtain m where m: "derive_fields response_error_decoders d = Inr m" "err_data e = field_opt ''data'' m"
    using assms by (auto simp: response_error_deserialize_def res_bind_Inr_iff)
  have "opt_canonical (err_data e)"
    unfolding m(2) by (rule field_opt_canonical [OF m(1)]) (auto simp: response_error_decoders_def)
  then show ?thesis
    by (simp add: response_error_wf_def response_error_canon_def opt_canonical_def drop_null_def)
qed

text \<open>
  The error codes and their numbers correspond one to one: every code is read back from its
  number, also from the error object made with it, and a number is refused, and returned, exactly
  when it is the number of no code.
\<close>

lemma error_codes_roundtrip:
  "(error_code_try_from n = Inr c \<longleftrightarrow> n = error_code_to_i32 c)
   \<and> (error_code_try_from n = Inl m \<longleftrightarrow> m = n \<and> n \<notin> range error_code_to_i32)
   \<and> response_error_code (response_error_new c t) = Some c
   \<and> inj error_code_to_i32"
proof -
  have "error_code_try_from n = Inl m \<longleftrightarrow> m = n \<and> n \<notin> range error_code_to_i32"
    using error_code_try_from_Inr [of n] error_code_try_from_Inl [of n]
    by (cases "error_code_try_from n") auto
  moreover have "inj error_code_to_i32"
    by (rule injI) (metis error_code_try_from_to_i32 sum.inject(2))
  ultimately show ?thesis
    by (simp add: error_code_try_from_Inr response_error_code_def response_error_new_def)
qed

end
