(* ===== verification/Rpc_Message.thy ===== *)
theory Rpc_Message
  imports Rpc_Error
begin

text \<open>
  \<open>src/src/message.rs\<close>: requests, responses and notifications, the hand-written serialisers and
  deserialisers, and the untagged message enum that tries Request, Response and Notification in
  this order.
\<close>

definition jsonrpc_version :: string where
  "jsonrpc_version = ''2.0''"

definition validate_jsonrpc_field :: "string \<Rightarrow> serde_error + unit" where
  "validate_jsonrpc_field v =
     (if v = jsonrpc_version then Inr ()
      else Inl (Custom (''expected jsonrpc field to equal \"'' @ jsonrpc_version @ ''\", got \"''
        @ v @ ''\"'')))"

subsection \<open>Requests\<close>

record request =
  req_id :: request_id
  req_method :: string
  req_params :: "json option"

definition request_new :: "request_id \<Rightarrow> string \<Rightarrow> json option \<Rightarrow> request" where
  "request_new i m p = \<lparr>req_id = i, req_method = m, req_params = p\<rparr>"

definition request_serialize :: "request \<Rightarrow> json" where
  "request_serialize r =
     JObject ([(''jsonrpc'', JString jsonrpc_version), (''id'', request_id_serialize (req_id r)),
        (''method'', JString (req_method r))]
       @ (case req_params r of Some p \<Rightarrow> [(''params'', p)] | None \<Rightarrow> []))"

text \<open>The local struct \<open>RequestRepr\<close> and its derived deserialiser.\<close>

definition request_repr :: "request_id decoders" where
  "request_repr = [(''jsonrpc'', str_field), (''id'', id_field), (''method'', str_field),
     (''params'', opt_field)]"

definition request_deserialize :: "json \<Rightarrow> serde_error + request" where
  "request_deserialize d =
     res_bind (derive_fields request_repr d) (\<lambda>m.
     res_bind (field_str ''jsonrpc'' m) (\<lambda>j.
     res_bind (field_id ''id'' m) (\<lambda>i.
     res_bind (field_str ''method'' m) (\<lambda>t.
     res_bind (validate_jsonrpc_field j) (\<lambda>_.
     Inr \<lparr>req_id = i, req_method = t, req_params = field_opt ''params'' m\<rparr>)))))"

subsection \<open>Responses\<close>

datatype response_body = Success json | Error response_error

record response =
  resp_id :: "request_id option"
  resp_body :: response_body

definition response_serialize :: "response \<Rightarrow> json" where
  "response_serialize r =
     JObject [(''jsonrpc'', JString jsonrpc_version),
       (''id'', case resp_id r of Some i \<Rightarrow> request_id_serialize i | None \<Rightarrow> JNull),
       (case resp_body r of
          Success v \<Rightarrow> (''result'', v)
        | Error e \<Rightarrow> (''error'', response_error_serialize e))]"

text \<open>The body of a response object whose entries are \<open>obj\<close>.\<close>

definition response_body_of :: "(string \<times> json) list \<Rightarrow> serde_error + response_body" where
  "response_body_of obj =
     (let has_result = map_of obj ''result'' \<noteq> None;
          has_error = map_of obj ''error'' \<noteq> None
      in if has_error then
           (let error_val = (case map_of obj ''error'' of Some v \<Rightarrow> v | None \<Rightarrow> JNull)
            in if error_val = JNull \<and> has_result then
                 Inr (Success (case map_of obj ''result'' of Some v \<Rightarrow> v | None \<Rightarrow> JNull))
               else if error_val = JNull then
                 Inl (Custom ''Response has error field but it is null and no result field'')
               else res_bind (response_error_deserialize error_val) (\<lambda>e. Inr (Error e)))
         else Inr (Success (case map_of obj ''result'' of Some v \<Rightarrow> v | None \<Rightarrow> JNull)))"

definition response_id_of :: "(string \<times> json) list \<Rightarrow> serde_error + request_id option" where
  "response_id_of obj =
     (case map_of obj ''id'' of
        None \<Rightarrow> Inr None
      | Some v \<Rightarrow>
          if v = JNull then Inr None
          else res_bind (request_id_deserialize v) (\<lambda>i. Inr (Some i)))"

definition response_deserialize :: "json \<Rightarrow> serde_error + response" where
  "response_deserialize d =
     (case as_object (to_value d) of
        None \<Rightarrow> Inl (Custom ''expected object'')
      | Some obj \<Rightarrow>
          if map_of obj ''result'' = None \<and> map_of obj ''error'' = None then
            Inl (Custom ''Response must have either 'result' or 'error' field'')
          else
            (case Option.bind (map_of obj ''jsonrpc'') as_str of
               None \<Rightarrow> Inl (Custom ''missing jsonrpc field'')
             | Some j \<Rightarrow>
                 res_bind (validate_jsonrpc_field j) (\<lambda>_.
                 res_bind (response_id_of obj) (\<lambda>i.
                 res_bind (response_body_of obj) (\<lambda>b.
                 Inr \<lparr>resp_id = i, resp_body = b\<rparr>)))))"

definition response_ok :: "request_id \<Rightarrow> json \<Rightarrow> response" where
  "response_ok i v = \<lparr>resp_id = Some i, resp_body = Success v\<rparr>"

definition response_err :: "request_id \<Rightarrow> response_error \<Rightarrow> response" where
  "response_err i e = \<lparr>resp_id = Some i, resp_body = Error e\<rparr>"

definition response_parse_error :: "response_error \<Rightarrow> response" where
  "response_parse_error e = \<lparr>resp_id = None, resp_body = Error e\<rparr>"

definition response_body_of_ref :: "response \<Rightarrow> response_body" where
  "response_body_of_ref r = resp_body r"

definition response_into_body :: "response \<Rightarrow> response_body" where
  "response_into_body r = resp_body r"

definition response_is_ok :: "response \<Rightarrow> bool" where
  "response_is_ok r = (case resp_body r of Success _ \<Rightarrow> True | Error _ \<Rightarrow> False)"

definition response_is_err :: "response \<Rightarrow> bool" where
  "response_is_err r = (case resp_body r of Success _ \<Rightarrow> False | Error _ \<Rightarrow> True)"

definition response_result :: "response \<Rightarrow> json option" where
  "response_result r = (case resp_body r of Success v \<Rightarrow> Some v | Error _ \<Rightarrow> None)"

definition response_error_of :: "response \<Rightarrow> response_error option" where
  "response_error_of r = (case resp_body r of Success _ \<Rightarrow> None | Error e \<Rightarrow> Some e)"

definition response_into_result :: "response \<Rightarrow> json option" where
  "response_into_result r = (case resp_body r of Success v \<Rightarrow> Some v | Error _ \<Rightarrow> None)"

definition response_into_error :: "response \<Rightarrow> response_error option" where
  "response_into_error r = (case resp_body r of Success _ \<Rightarrow> None | Error e \<Rightarrow> Some e)"

subsection \<open>Notifications\<close>

record notification =
  notif_method :: string
  notif_params :: "json option"

definition notification_new :: "string \<Rightarrow> json option \<Rightarrow> notification" where
  "notification_new m p = \<lparr>notif_method = m, notif_params = p\<rparr>"

definition notification_serialize :: "notification \<Rightarrow> json" where
  "notification_serialize n =
     JObject ([(''jsonrpc'', JString jsonrpc_version), (''method'', JString (notif_method n))]
       @ (case notif_params n of Some p \<Rightarrow> [(''params'', p)] | None \<Rightarrow> []))"

definition notification_repr :: "request_id decoders" where
  "notification_repr = [(''jsonrpc'', str_field), (''method'', str_field), (''params'', opt_field)]"

definition notification_deserialize :: "json \<Rightarrow> serde_error + notification" where
  "notification_deserialize d =
     res_bind (derive_fields notification_repr d) (\<lambda>m.
     res_bind (field_str ''jsonrpc'' m) (\<lambda>j.
     res_bind (field_str ''method'' m) (\<lambda>t.
     res_bind (validate_jsonrpc_field j) (\<lambda>_.
     Inr \<lparr>notif_method = t, notif_params = field_opt ''params'' m\<rparr>))))"

subsection \<open>Messages\<close>

datatype message = Request request | Response response | Notification notification

fun message_serialize :: "message \<Rightarrow> json" where
  "message_serialize (Request r) = request_serialize r"
| "message_serialize (Response r) = response_serialize r"
| "message_serialize (Notification n) = notification_serialize n"

definition message_deserialize :: "json \<Rightarrow> serde_error + message" where
  "message_deserialize d =
     (case request_deserialize d of
        Inr r \<Rightarrow> Inr (Request r)
      | Inl _ \<Rightarrow>
          (case response_deserialize d of
             Inr r \<Rightarrow> Inr (Response r)
           | Inl _ \<Rightarrow>
               (case notification_deserialize d of
                  Inr n \<Rightarrow> Inr (Notification n)
                | Inl _ \<Rightarrow> Inl (No_variant ''Message''))))"

definition message_from_request :: "request \<Rightarrow> message" where
  "message_from_request r = Request r"

definition message_from_response :: "response \<Rightarrow> message" where
  "message_from_response r = Response r"

definition message_from_notification :: "notification \<Rightarrow> message" where
  "message_from_notification n = Notification n"

definition is_request :: "message \<Rightarrow> bool" where
  "is_request m = (case m of Request _ \<Rightarrow> True | _ \<Rightarrow> False)"

definition is_response :: "message \<Rightarrow> bool" where
  "is_response m = (case m of Response _ \<Rightarrow> True | _ \<Rightarrow> False)"

definition is_notification :: "message \<Rightarrow> bool" where
  "is_notification m = (case m of Notification _ \<Rightarrow> True | _ \<Rightarrow> False)"

definition as_request :: "message \<Rightarrow> request option" where
  "as_request m = (case m of Request r \<Rightarrow> Some r | _ \<Rightarrow> None)"

definition as_response :: "message \<Rightarrow> response option" where
  "as_response m = (case m of Response r \<Rightarrow> Some r | _ \<Rightarrow> None)"

definition as_notification :: "message \<Rightarrow> notification option" where
  "as_notification m = (case m of Notification n \<Rightarrow> Some n | _ \<Rightarrow> None)"

definition into_request :: "message \<Rightarrow> request option" where
  "into_request m = (case m of Request r \<Rightarrow> Some r | _ \<Rightarrow> None)"

definition into_response :: "message \<Rightarrow> response option" where
  "into_response m = (case m of Response r \<Rightarrow> Some r | _ \<Rightarrow> None)"

definition into_notification :: "message \<Rightarrow> notification option" where
  "into_notification m = (case m of Notification n \<Rightarrow> Some n | _ \<Rightarrow> None)"

subsection \<open>Well-formed messages and their canonical form\<close>

text \<open>
  The JSON carried by a message is a \<open>Value\<close> by its type. The canonical form of a message is
  what a reader gets back: an optional value that is \<open>Some(Null)\<close> reads as absent.
\<close>

definition opt_value_wf :: "json option \<Rightarrow> bool" where
  "opt_value_wf v \<longleftrightarrow> (\<forall>x. v = Some x \<longrightarrow> is_value x)"

fun response_body_wf :: "response_body \<Rightarrow> bool" where
  "response_body_wf (Success v) = is_value v"
| "response_body_wf (Error e) = response_error_wf e"

fun message_wf :: "message \<Rightarrow> bool" where
  "message_wf (Request r) = opt_value_wf (req_params r)"
| "message_wf (Response r) = response_body_wf (resp_body r)"
| "message_wf (Notification n) = opt_value_wf (notif_params n)"

fun response_body_canon :: "response_body \<Rightarrow> response_body" where
  "response_body_canon (Success v) = Success v"
| "response_body_canon (Error e) = Error (response_error_canon e)"

fun message_canon :: "message \<Rightarrow> message" where
  "message_canon (Request r) = Request (r\<lparr>req_params := drop_null (req_params r)\<rparr>)"
| "message_canon (Response r) = Response (r\<lparr>resp_body := response_body_canon (resp_body r)\<rparr>)"
| "message_canon (Notification n) = Notification (n\<lparr>notif_params := drop_null (notif_params n)\<rparr>)"

subsection \<open>Round trips\<close>

lemmas de_simps [serde_simps] =
  request_deserialize_def notification_deserialize_def derive_fields_def
  request_repr_def notification_repr_def id_field_def str_field_def opt_field_def
  field_str_def field_id_def field_opt_def string_deserialize_def
  validate_jsonrpc_field_def

lemma request_roundtrip:
  assumes "opt_value_wf (req_params r)"
  shows "request_deserialize (request_serialize r) = Inr (r\<lparr>req_params := drop_null (req_params r)\<rparr>)"
  using assms
  by (cases "req_params r")
    (simp_all add: request_serialize_def de_simps opt_value_wf_def option_value_deserialize_drop_null)

lemma notification_roundtrip:
  assumes "opt_value_wf (notif_params n)"
  shows "notification_deserialize (notification_serialize n)
           = Inr (n\<lparr>notif_params := drop_null (notif_params n)\<rparr>)"
  using assms
  by (cases "notif_params n")
    (simp_all add: notification_serialize_def de_simps opt_value_wf_def
      option_value_deserialize_drop_null)

lemma response_roundtrip:
  assumes "response_body_wf (resp_body r)"
  shows "response_deserialize (response_serialize r)
           = Inr (r\<lparr>resp_body := response_body_canon (resp_body r)\<rparr>)"
proof (cases "resp_body r")
  case (Success v)
  then show ?thesis
    using assms by (cases "resp_id r")
      (simp_all add: response_deserialize_def response_serialize_def btree_of_def as_object_def
        as_str_def validate_jsonrpc_field_def response_id_of_def response_body_of_def to_value_id)
next
  case (Error e)
  then show ?thesis
    using assms by (cases "resp_id r")
      (simp_all add: response_deserialize_def response_serialize_def btree_of_def as_object_def
        as_str_def validate_jsonrpc_field_def response_id_of_def response_body_of_def
        response_error_value_roundtrip)
qed

text \<open>A response document has no method, a notification document no id and no body.\<close>

lemma request_deserialize_response: "\<exists>e. request_deserialize (response_serialize r) = Inl e"
  by (cases "resp_id r"; cases "resp_body r") (simp_all add: response_serialize_def de_simps)

lemma request_deserialize_notification:
  "\<exists>e. request_deserialize (notification_serialize n) = Inl e"
proof (cases "notif_params n")
  case (Some p)
  then show ?thesis
    by (cases "option_value_deserialize p") (simp_all add: notification_serialize_def de_simps)
qed (simp add: notification_serialize_def de_simps)

lemma response_deserialize_notification:
  "\<exists>e. response_deserialize (notification_serialize n) = Inl e"
  by (cases "notif_params n")
    (simp_all add: notification_serialize_def response_deserialize_def btree_of_def as_object_def)

lemma message_roundtrip:
  assumes "message_wf m"
  shows "message_deserialize (message_serialize m) = Inr (message_canon m)"
proof (cases m)
  case (Request r)
  then show ?thesis
    using assms by (simp add: message_deserialize_def request_roundtrip)
next
  case (Response r)
  obtain e where "request_deserialize (response_serialize r) = Inl e"
    using request_deserialize_response by blast
  then show ?thesis
    using assms Response by (simp add: message_deserialize_def response_roundtrip)
next
  case (Notification n)
  obtain e e' where "request_deserialize (notification_serialize n) = Inl e"
    and "response_deserialize (notification_serialize n) = Inl e'"
    using request_deserialize_notification response_deserialize_notification by blast
  then show ?thesis
    using assms Notification by (simp add: message_deserialize_def notification_roundtrip)
qed

subsection \<open>Which objects are which message\<close>

text \<open>The conditions of JSON-RPC on the entries of an object.\<close>

definition has_version :: "(string \<times> json) list \<Rightarrow> bool" where
  "has_version es \<longleftrightarrow> map_of es ''jsonrpc'' = Some (JString jsonrpc_version)"

definition has_method :: "(string \<times> json) list \<Rightarrow> string \<Rightarrow> bool" where
  "has_method es t \<longleftrightarrow> map_of es ''method'' = Some (JString t)"

definition has_id :: "(string \<times> json) list \<Rightarrow> request_id \<Rightarrow> bool" where
  "has_id es i \<longleftrightarrow> (\<exists>v. map_of es ''id'' = Some v \<and> request_id_deserialize v = Inr i)"

definition params_of :: "(string \<times> json) list \<Rightarrow> json option" where
  "params_of es = drop_null (map_option to_value (map_of es ''params''))"

lemmas has_defs = has_version_def has_method_def has_id_def params_of_def

lemma option_value_deserialize_eq: "option_value_deserialize v = Inr (drop_null (Some (to_value v)))"
  by (cases v) (simp_all add: option_value_deserialize_def drop_null_def)

lemma fields_ok_distinct:
  assumes "distinct (map fst es)"
  shows "fields_ok ds es \<longleftrightarrow>
    (\<forall>k v d. map_of es k = Some v \<longrightarrow> map_of ds k = Some d \<longrightarrow> (\<exists>f. d v = Inr f))"
  using assms by (simp add: fields_ok_def)

lemma collect_str:
  "map_of ds k = Some str_field \<Longrightarrow>
     field_str k (collect ds es) = Inr t \<longleftrightarrow> map_of es k = Some (JString t)"
  by (cases "map_of es k") (auto simp: collect_def field_defs split: json.splits)

lemma collect_id:
  "map_of ds k = Some id_field \<Longrightarrow>
     field_id k (collect ds es) = Inr i
       \<longleftrightarrow> (\<exists>v. map_of es k = Some v \<and> request_id_deserialize v = Inr i)"
proof (cases "map_of es k")
  case (Some v)
  then show "map_of ds k = Some id_field \<Longrightarrow> ?thesis"
    by (cases "request_id_deserialize v") (auto simp: collect_def field_id_def id_field_def)
qed (simp add: collect_def field_id_def)

lemma collect_opt:
  "map_of ds k = Some opt_field \<Longrightarrow>
     field_opt k (collect ds es) = drop_null (map_option to_value (map_of es k))"
  by (cases "map_of es k")
    (simp_all add: collect_def field_opt_def opt_field_def option_value_deserialize_eq)

lemmas collect_fields = collect_str collect_id collect_opt

lemma str_field_ok: "(\<exists>f. str_field v = Inr f) \<longleftrightarrow> (\<exists>t. v = JString t)"
  by (cases v) (auto simp: field_defs)

lemma opt_field_ok: "\<exists>f. opt_field v = Inr f"
  by (simp add: opt_field_def option_value_deserialize_eq)

lemma id_field_ok: "(\<exists>f. id_field v = Inr f) \<longleftrightarrow> (\<exists>i. request_id_deserialize v = Inr i)"
  by (cases "request_id_deserialize v") (auto simp: id_field_def)

lemma validate_ok: "validate_jsonrpc_field j = Inr u \<longleftrightarrow> j = jsonrpc_version"
  by (simp add: validate_jsonrpc_field_def)

lemma request_deserialize_object:
  assumes "distinct (map fst es)"
  shows "request_deserialize (JObject es) = Inr r \<longleftrightarrow>
    has_version es \<and> has_method es (req_method r) \<and> has_id es (req_id r) \<and> req_params r = params_of es"
    (is "?l \<longleftrightarrow> ?r")
proof -
  have ds: "map_of request_repr ''jsonrpc'' = Some str_field"
    "map_of request_repr ''id'' = Some id_field"
    "map_of request_repr ''method'' = Some str_field"
    "map_of request_repr ''params'' = Some opt_field"
    by (simp_all add: request_repr_def)
  have ok: "fields_ok request_repr es" if ?r
    using that by (auto simp: fields_ok_distinct [OF assms] request_repr_def has_defs
        str_field_ok opt_field_ok id_field_ok split: if_splits)
  show ?thesis
    unfolding request_deserialize_def derive_fields_def
    by (cases r) (use ok in \<open>auto simp: res_bind_Inr_iff visit_map_iff collect_fields ds validate_ok
        has_defs\<close>)
qed

lemma notification_deserialize_object:
  assumes "distinct (map fst es)"
  shows "notification_deserialize (JObject es) = Inr n \<longleftrightarrow>
    has_version es \<and> has_method es (notif_method n) \<and> notif_params n = params_of es"
    (is "?l \<longleftrightarrow> ?r")
proof -
  have ds: "map_of notification_repr ''jsonrpc'' = Some str_field"
    "map_of notification_repr ''method'' = Some str_field"
    "map_of notification_repr ''params'' = Some opt_field"
    by (simp_all add: notification_repr_def)
  have ok: "fields_ok notification_repr es" if ?r
    using that by (auto simp: fields_ok_distinct [OF assms] notification_repr_def has_defs
        str_field_ok opt_field_ok split: if_splits)
  show ?thesis
    unfolding notification_deserialize_def derive_fields_def
    by (cases n) (use ok in \<open>auto simp: res_bind_Inr_iff visit_map_iff collect_fields ds validate_ok
        has_defs\<close>)
qed

text \<open>
  A response object is read through a \<open>Value\<close>: its entries are those of the document, each
  turned into a \<open>Value\<close>.
\<close>

lemma map_of_to_value:
  assumes "distinct (map fst es)"
  shows "map_of (btree_of (map (map_prod id to_value) es)) k = map_option to_value (map_of es k)"
proof -
  have "distinct (map fst (map (map_prod id to_value) es))"
    using assms by (simp add: comp_def)
  then have "map_of (rev (map (map_prod id to_value) es)) = map_of (map (map_prod id to_value) es)"
    by (metis map_of_inject_set distinct_rev rev_map set_rev)
  moreover have "map_of (map (map_prod id to_value) es) k = map_option to_value (map_of es k)"
    by (induction es) auto
  ultimately show ?thesis
    by (simp add: map_of_btree_of)
qed

lemma i32_deserialize_to_value [simp]: "i32_deserialize (to_value v) = i32_deserialize v"
  by (cases v) (simp_all add: i32_deserialize_def)

lemma request_id_deserialize_to_value [simp]:
  "request_id_deserialize (to_value v) = request_id_deserialize v"
  by (cases v) (simp_all add: request_id_deserialize_def i32_deserialize_def string_deserialize_def)

lemma as_str_to_value [simp]: "as_str (to_value v) = as_str v"
  by (cases v) (simp_all add: as_str_def)

lemma as_str_Some_iff: "as_str v = Some t \<longleftrightarrow> v = JString t"
  by (cases v) (simp_all add: as_str_def)

text \<open>The id and the body a response object is read to.\<close>

definition response_id_reads :: "(string \<times> json) list \<Rightarrow> request_id option \<Rightarrow> bool" where
  "response_id_reads es i \<longleftrightarrow>
     (case map_of es ''id'' of
        None \<Rightarrow> i = None
      | Some v \<Rightarrow> if v = JNull then i = None
          else (\<exists>j. i = Some j \<and> request_id_deserialize v = Inr j))"

definition response_body_reads :: "(string \<times> json) list \<Rightarrow> response_body \<Rightarrow> bool" where
  "response_body_reads es b \<longleftrightarrow>
     (if map_of es ''error'' \<in> {None, Some JNull}
      then (\<exists>w. map_of es ''result'' = Some w \<and> b = Success (to_value w))
      else (\<exists>v e. map_of es ''error'' = Some v \<and> response_error_deserialize (to_value v) = Inr e
              \<and> b = Error e))"

lemma response_deserialize_object:
  assumes "distinct (map fst es)"
  shows "response_deserialize (JObject es) = Inr r \<longleftrightarrow>
    has_version es \<and> response_id_reads es (resp_id r) \<and> response_body_reads es (resp_body r)"
proof -
  define obj where "obj = btree_of (map (map_prod id to_value) es)"
  have obj: "map_of obj k = map_option to_value (map_of es k)" for k
    unfolding obj_def by (rule map_of_to_value [OF assms])
  have version: "Option.bind (map_of obj ''jsonrpc'') as_str = Some jsonrpc_version \<longleftrightarrow> has_version es"
    by (cases "map_of es ''jsonrpc''") (simp_all add: obj has_version_def as_str_Some_iff)
  have i: "response_id_of obj = Inr j \<longleftrightarrow> response_id_reads es j" for j
    by (cases "map_of es ''id''") (auto simp: response_id_of_def obj response_id_reads_def res_bind_Inr_iff)
  have b: "map_of obj ''result'' = None \<and> map_of obj ''error'' = None \<Longrightarrow> \<not> response_body_reads es c"
    "\<not> (map_of obj ''result'' = None \<and> map_of obj ''error'' = None) \<Longrightarrow>
      response_body_of obj = Inr c \<longleftrightarrow> response_body_reads es c" for c
    by (auto simp: response_body_of_def response_body_reads_def obj res_bind_Inr_iff Let_def
        split: option.splits if_splits)
  show ?thesis
    using b version i
    by (cases r) (auto simp: response_deserialize_def as_object_def obj_def [symmetric] res_bind_Inr_iff
        validate_ok split: option.splits if_splits)
qed

lemma request_rejects_iff:
  assumes "distinct (map fst es)"
  shows "(\<exists>e. request_deserialize (JObject es) = Inl e) \<longleftrightarrow>
    \<not> (has_version es \<and> (\<exists>t. has_method es t) \<and> (\<exists>i. has_id es i))"
proof
  assume "\<exists>e. request_deserialize (JObject es) = Inl e"
  then have "request_deserialize (JObject es) \<noteq> Inr \<lparr>req_id = i, req_method = t, req_params = params_of es\<rparr>"
    for i t by auto
  then show "\<not> (has_version es \<and> (\<exists>t. has_method es t) \<and> (\<exists>i. has_id es i))"
    by (auto simp: request_deserialize_object [OF assms])
next
  assume "\<not> (has_version es \<and> (\<exists>t. has_method es t) \<and> (\<exists>i. has_id es i))"
  then have "request_deserialize (JObject es) \<noteq> Inr r" for r
    by (auto simp: request_deserialize_object [OF assms])
  then show "\<exists>e. request_deserialize (JObject es) = Inl e"
    by (cases "request_deserialize (JObject es)") auto
qed

lemma response_rejects_iff:
  assumes "distinct (map fst es)"
  shows "(\<exists>e. response_deserialize (JObject es) = Inl e) \<longleftrightarrow>
    \<not> (has_version es \<and> (\<exists>i. response_id_reads es i) \<and> (\<exists>b. response_body_reads es b))"
proof
  assume "\<exists>e. response_deserialize (JObject es) = Inl e"
  then have "response_deserialize (JObject es) \<noteq> Inr \<lparr>resp_id = i, resp_body = b\<rparr>" for i b
    by auto
  then show "\<not> (has_version es \<and> (\<exists>i. response_id_reads es i) \<and> (\<exists>b. response_body_reads es b))"
    by (auto simp: response_deserialize_object [OF assms])
next
  assume "\<not> (has_version es \<and> (\<exists>i. response_id_reads es i) \<and> (\<exists>b. response_body_reads es b))"
  then have "response_deserialize (JObject es) \<noteq> Inr r" for r
    by (auto simp: response_deserialize_object [OF assms])
  then show "\<exists>e. response_deserialize (JObject es) = Inl e"
    by (cases "response_deserialize (JObject es)") auto
qed

subsection \<open>What deserialisation gives\<close>

lemma request_deserialize_canonical:
  assumes "request_deserialize d = Inr r"
  shows "opt_canonical (req_params r)"
proof -
  obtain m where m: "derive_fields request_repr d = Inr m" "req_params r = field_opt ''params'' m"
    using assms by (auto simp: request_deserialize_def res_bind_Inr_iff)
  show ?thesis
    unfolding m(2) by (rule field_opt_canonical [OF m(1)]) (auto simp: request_repr_def)
qed

lemma notification_deserialize_canonical:
  assumes "notification_deserialize d = Inr n"
  shows "opt_canonical (notif_params n)"
proof -
  obtain m where m: "derive_fields notification_repr d = Inr m" "notif_params n = field_opt ''params'' m"
    using assms by (auto simp: notification_deserialize_def res_bind_Inr_iff)
  show ?thesis
    unfolding m(2) by (rule field_opt_canonical [OF m(1)]) (auto simp: notification_repr_def)
qed

lemma response_deserialize_canonical:
  assumes "response_deserialize d = Inr r"
  shows "response_body_wf (resp_body r) \<and> response_body_canon (resp_body r) = resp_body r"
proof -
  define b where "b = resp_body r"
  obtain es where es: "to_value d = JObject es" "response_body_of es = Inr b"
    using assms by (auto simp: b_def response_deserialize_def as_object_def res_bind_Inr_iff
        split: option.splits json.splits if_splits)
  have "is_value v" if "map_of es k = Some v" for k v
    using is_value_to_value [of d] map_of_SomeD [OF that] by (fastforce simp: es(1))
  then show ?thesis
    unfolding b_def [symmetric] using es(2) response_error_deserialize_canonical
    by (auto simp: response_body_of_def res_bind_Inr_iff Let_def split: option.splits if_splits)
qed

lemma message_deserialize_canonical:
  assumes "message_deserialize d = Inr m"
  shows "message_wf m \<and> message_canon m = m"
  using assms request_deserialize_canonical [of d] response_deserialize_canonical [of d]
    notification_deserialize_canonical [of d]
  by (auto simp: message_deserialize_def opt_value_wf_def opt_canonical_def drop_null_def split: sum.splits)

lemma message_deserialize_cases:
  "message_deserialize d = Inr m \<longleftrightarrow>
     (case m of
        Request r \<Rightarrow> request_deserialize d = Inr r
      | Response r \<Rightarrow> (\<exists>e. request_deserialize d = Inl e) \<and> response_deserialize d = Inr r
      | Notification n \<Rightarrow> (\<exists>e. request_deserialize d = Inl e) \<and> (\<exists>e. response_deserialize d = Inl e)
          \<and> notification_deserialize d = Inr n)"
  by (auto simp: message_deserialize_def split: sum.splits message.splits)

subsection \<open>Properties\<close>

text \<open>
  C13. Serialising a message and deserialising the document gives the message back, up to
  \<open>Some(Null)\<close> in an optional field, which reads as absent; in particular a request is never
  read back as a notification or a response.
\<close>

theorem message_serde_roundtrip:
  assumes "message_wf m"
  shows "message_deserialize (message_serialize m) = Inr (message_canon m)"
  using assms by (rule message_roundtrip)

theorem message_serde_roundtrip_witness:
  "message_deserialize (message_serialize
     (Response (response_err (IntegerId 7) (response_error_with_data
        (response_error_new MethodNotFound ''no'') (JObject [(''a'', JNull), (''b'', JBool True)])))))
   = Inr (Response (response_err (IntegerId 7) (response_error_with_data
        (response_error_new MethodNotFound ''no'') (JObject [(''a'', JNull), (''b'', JBool True)]))))"
  by (subst message_serde_roundtrip)
    (simp_all add: response_err_def response_error_with_data_def response_error_new_def
      response_error_wf_def response_error_canon_def drop_null_def)

text \<open>
  C14. Which object is which message, for an object without repeated keys: a request is a version,
  a method and an identifier that is a string or an \<open>i32\<close>; a response is an object that is not a
  request, with a version, a body and an id that is absent, null or an identifier; every other
  object with a version and a method is a notification, whether or not it has an \<open>id\<close> entry.
\<close>

theorem message_of_object_iff:
  assumes "distinct (map fst es)"
  shows "message_deserialize (JObject es) = Inr m \<longleftrightarrow>
    (case m of
       Request r \<Rightarrow>
         has_version es \<and> has_method es (req_method r) \<and> has_id es (req_id r)
         \<and> req_params r = params_of es
     | Response r \<Rightarrow>
         has_version es \<and> response_id_reads es (resp_id r) \<and> response_body_reads es (resp_body r)
         \<and> \<not> ((\<exists>t. has_method es t) \<and> (\<exists>i. has_id es i))
     | Notification n \<Rightarrow>
         has_version es \<and> has_method es (notif_method n) \<and> notif_params n = params_of es
         \<and> \<not> (\<exists>i. has_id es i)
         \<and> \<not> ((\<exists>i. response_id_reads es i) \<and> (\<exists>b. response_body_reads es b)))"
  unfolding message_deserialize_cases
  by (auto simp: request_deserialize_object [OF assms] response_deserialize_object [OF assms]
      notification_deserialize_object [OF assms] request_rejects_iff [OF assms]
      response_rejects_iff [OF assms] split: message.split)

theorem message_of_object_iff_witness:
  "message_deserialize (JObject [(''jsonrpc'', JString ''2.0''), (''id'', JNull),
      (''error'', JNull), (''result'', JBool True)])
   = Inr (Response \<lparr>resp_id = None, resp_body = Success (JBool True)\<rparr>)"
  by (subst message_of_object_iff)
    (simp_all add: has_defs jsonrpc_version_def response_id_reads_def response_body_reads_def)

text \<open>
  C37. A request whose identifier is neither a string nor an \<open>i32\<close> is not rejected: it is read
  as a notification, so it is never answered.
\<close>

theorem request_with_foreign_id_is_notification:
  assumes "distinct (map fst es)" and "has_version es" and "has_method es t"
    and "map_of es ''id'' = Some v" and "\<And>i. request_id_deserialize v \<noteq> Inr i"
    and "map_of es ''result'' = None" and "map_of es ''error'' = None"
  shows "message_deserialize (JObject es)
           = Inr (Notification \<lparr>notif_method = t, notif_params = params_of es\<rparr>)"
proof -
  have "\<not> has_id es i" and "\<not> response_body_reads es b" for i b
    using assms by (simp_all add: has_id_def response_body_reads_def)
  with assms show ?thesis
    unfolding message_deserialize_cases
    by (simp add: notification_deserialize_object request_rejects_iff response_rejects_iff)
qed

theorem request_with_foreign_id_is_notification_witness:
  "message_deserialize (JObject [(''jsonrpc'', JString ''2.0''), (''id'', JNumber (PosInt 2147483648)),
      (''method'', JString ''textDocument/hover'')])
   = Inr (Notification \<lparr>notif_method = ''textDocument/hover'', notif_params = None\<rparr>)"
  by (subst request_with_foreign_id_is_notification [where t = "''textDocument/hover''"
        and v = "JNumber (PosInt 2147483648)"])
    (simp_all add: has_defs jsonrpc_version_def request_id_deserialize_def i32_deserialize_def
      i32_try_from_def i32_max_def string_deserialize_def)

end
