(* ===== verification/Tokio_Api.thy ===== *)
theory Tokio_Api
  imports Rpc_Message
begin

text \<open>
  The primitives of tokio and tokio-util that the source calls are parameters of the model: a
  record of functions over abstract runtime states, and one locale per primitive with the
  documented behaviour the proofs rely on. Cancellation tokens, oneshot channels and the
  outbound channel of a connection each have a state of their own.

  A token is named by a number, and so is a oneshot channel; the sender and the receiver of a
  channel share its name. The reference runtime at the end instantiates the record by concrete
  functions and shows that the laws can hold together.
\<close>

type_synonym token = nat
type_synonym oneshot = nat

text \<open>What polling the receiver of a oneshot channel gives.\<close>

datatype oneshot_result = Rx_waiting | Rx_value response | Rx_closed

record ('tw, 'ow, 'mw) tokio =
  token_new :: "'tw \<Rightarrow> token \<times> 'tw"
  child_token :: "token \<Rightarrow> 'tw \<Rightarrow> token \<times> 'tw"
  token_cancel :: "token \<Rightarrow> 'tw \<Rightarrow> 'tw"
  is_cancelled :: "token \<Rightarrow> 'tw \<Rightarrow> bool"
  oneshot_channel :: "'ow \<Rightarrow> oneshot \<times> 'ow"
  oneshot_send :: "oneshot \<Rightarrow> response \<Rightarrow> 'ow \<Rightarrow> 'ow"
  oneshot_drop :: "oneshot \<Rightarrow> 'ow \<Rightarrow> 'ow"
  oneshot_poll :: "oneshot \<Rightarrow> 'ow \<Rightarrow> oneshot_result"
  mpsc_channel :: "'mw"
  mpsc_send :: "message \<Rightarrow> 'mw \<Rightarrow> bool \<times> 'mw"
  mpsc_recv :: "'mw \<Rightarrow> message option \<times> 'mw"
  mpsc_close :: "'mw \<Rightarrow> 'mw"

subsection \<open>Documented behaviour\<close>

text \<open>
  \<open>tokio_util::sync::CancellationToken\<close>: cancelling a token cancels it and everything created
  from it by \<open>child_token\<close>; a child starts in the state of its parent; cancelling a child leaves
  its parent alone. \<open>descends w u a\<close> says that \<open>u\<close> is \<open>a\<close> or was derived from it.
\<close>

locale cancellation_tokens =
  fixes tk :: "('tw, 'ow, 'mw) tokio"
    and known :: "'tw \<Rightarrow> token set"
    and descends :: "'tw \<Rightarrow> token \<Rightarrow> token \<Rightarrow> bool"
  assumes new_token: "token_new tk w = (c, w') \<Longrightarrow>
      c \<notin> known w \<and> known w' = insert c (known w) \<and> \<not> is_cancelled tk c w'
      \<and> (\<forall>u\<in>known w. is_cancelled tk u w' = is_cancelled tk u w)
      \<and> (\<forall>u a. descends w' u a \<longleftrightarrow> descends w u a \<or> u = c \<and> a = c)"
    and new_child: "child_token tk t w = (c, w') \<Longrightarrow> t \<in> known w \<Longrightarrow>
      c \<notin> known w \<and> known w' = insert c (known w) \<and> is_cancelled tk c w' = is_cancelled tk t w
      \<and> (\<forall>u\<in>known w. is_cancelled tk u w' = is_cancelled tk u w)
      \<and> (\<forall>u a. descends w' u a \<longleftrightarrow> descends w u a \<or> u = c \<and> (a = c \<or> descends w t a))"
    and cancel_token: "is_cancelled tk u (token_cancel tk t w) \<longleftrightarrow> is_cancelled tk u w \<or> descends w u t"
    and cancel_known [simp]: "known (token_cancel tk t w) = known w"
    and cancel_descends [simp]: "descends (token_cancel tk t w) = descends w"
    and descends_refl: "t \<in> known w \<Longrightarrow> descends w t t"
    and descends_known: "descends w u a \<Longrightarrow> u \<in> known w \<and> a \<in> known w"

text \<open>
  \<open>tokio::sync::oneshot\<close>: the receiver waits until a value is sent or the sender is dropped,
  and then keeps that outcome.
\<close>

locale oneshot_channels =
  fixes tk :: "('tw, 'ow, 'mw) tokio"
    and opened :: "'ow \<Rightarrow> oneshot set"
  assumes new_channel: "oneshot_channel tk w = (h, w') \<Longrightarrow>
      h \<notin> opened w \<and> opened w' = insert h (opened w) \<and> oneshot_poll tk h w' = Rx_waiting
      \<and> (\<forall>g\<in>opened w. oneshot_poll tk g w' = oneshot_poll tk g w)"
    and send_value: "h \<in> opened w \<Longrightarrow> oneshot_poll tk h w = Rx_waiting \<Longrightarrow>
      oneshot_poll tk h (oneshot_send tk h r w) = Rx_value r"
    and send_other [simp]: "g \<noteq> h \<Longrightarrow> oneshot_poll tk g (oneshot_send tk h r w) = oneshot_poll tk g w"
    and send_opened [simp]: "opened (oneshot_send tk h r w) = opened w"
    and drop_closes: "h \<in> opened w \<Longrightarrow> oneshot_poll tk h w = Rx_waiting \<Longrightarrow>
      oneshot_poll tk h (oneshot_drop tk h w) = Rx_closed"
    and drop_other [simp]: "g \<noteq> h \<Longrightarrow> oneshot_poll tk g (oneshot_drop tk h w) = oneshot_poll tk g w"
    and drop_opened [simp]: "opened (oneshot_drop tk h w) = opened w"

text \<open>
  \<open>tokio::sync::mpsc::unbounded_channel\<close>: a send succeeds exactly while the receiver exists
  and appends the message; messages are received in the order they were sent; when the receiver
  is dropped (\<open>mpsc_close\<close>) the channel is dead. A connection has one such channel, whose state is \<open>'mw\<close>.
  Those who only send rely on the laws of the first locale; the drain task also receives.
\<close>

locale outbound_sends =
  fixes tk :: "('tw, 'ow, 'mw) tokio"
    and queued :: "'mw \<Rightarrow> message list"
    and live :: "'mw \<Rightarrow> bool"
  assumes new_live: "live (mpsc_channel tk)"
    and new_queued: "queued (mpsc_channel tk) = []"
    and send_live: "live w \<Longrightarrow> mpsc_send tk m w = (ok, w') \<Longrightarrow> ok \<and> live w' \<and> queued w' = queued w @ [m]"
    and send_dead: "\<not> live w \<Longrightarrow> mpsc_send tk m w = (ok, w') \<Longrightarrow> \<not> ok \<and> \<not> live w' \<and> queued w' = queued w"
    and close_dead: "\<not> live (mpsc_close tk w)"

locale outbound_channel = outbound_sends tk queued live
  for tk :: "('tw, 'ow, 'mw) tokio" and queued :: "'mw \<Rightarrow> message list" and live :: "'mw \<Rightarrow> bool" +
  assumes recv_some: "queued w = m # q \<Longrightarrow> mpsc_recv tk w = (r, w') \<Longrightarrow>
      r = Some m \<and> queued w' = q \<and> live w' = live w"
    and recv_none: "queued w = [] \<Longrightarrow> mpsc_recv tk w = (r, w') \<Longrightarrow>
      r = None \<and> queued w' = [] \<and> live w' = live w"

text \<open>
  A channel with its history: \<open>sent\<close> is everything that was ever sent, of which the queued messages
  are the end and \<open>taken\<close>, what the drain task has received, the beginning.
\<close>

locale outbound_history = outbound_channel tk queued live + history: outbound_sends tk sent live
  for tk :: "('tw, 'ow, 'mw) tokio" and queued sent :: "'mw \<Rightarrow> message list" and live :: "'mw \<Rightarrow> bool" +
  fixes taken :: "'mw \<Rightarrow> message list"
  assumes sent_split: "sent w = taken w @ queued w"
    and recv_sent: "mpsc_recv tk w = (r, w') \<Longrightarrow> sent w' = sent w"

locale tokio_runtime =
  cancellation_tokens tk known descends + oneshot_channels tk opened + outbound_channel tk queued live
  for tk :: "('tw, 'ow, 'mw) tokio"
    and known :: "'tw \<Rightarrow> token set"
    and descends :: "'tw \<Rightarrow> token \<Rightarrow> token \<Rightarrow> bool"
    and opened :: "'ow \<Rightarrow> oneshot set"
    and queued :: "'mw \<Rightarrow> message list"
    and live :: "'mw \<Rightarrow> bool"

subsection \<open>A reference runtime\<close>

text \<open>
  A token is an index into a list of nodes (the ancestors that come before it, and its flag), a
  oneshot channel an index into a list of outcomes, the outbound channel a queue and a flag.
\<close>

type_synonym ref_tokens = "(token list \<times> bool) list"

definition ref_descends :: "ref_tokens \<Rightarrow> token \<Rightarrow> token \<Rightarrow> bool" where
  "ref_descends w u a \<longleftrightarrow> u < length w \<and> (a = u \<or> a < u \<and> a \<in> set (fst (w ! u)))"

definition ref_known :: "ref_tokens \<Rightarrow> token set" where
  "ref_known w = {..<length w}"

definition ref_opened :: "oneshot_result list \<Rightarrow> oneshot set" where
  "ref_opened w = {..<length w}"

definition ref_poll :: "oneshot \<Rightarrow> oneshot_result list \<Rightarrow> oneshot_result" where
  "ref_poll h w = (if h < length w then w ! h else Rx_closed)"

definition ref_set :: "oneshot \<Rightarrow> oneshot_result \<Rightarrow> oneshot_result list \<Rightarrow> oneshot_result list" where
  "ref_set h v w = (if ref_poll h w = Rx_waiting then w[h := v] else w)"

definition ref_tokio :: "(ref_tokens, oneshot_result list, message list \<times> bool) tokio" where
  "ref_tokio =
     \<lparr>token_new = (\<lambda>w. (length w, w @ [([], False)])),
      child_token = (\<lambda>t w. (length w,
        if t < length w then w @ [(t # filter (\<lambda>a. a < t) (fst (w ! t)), snd (w ! t))]
        else w @ [([], False)])),
      token_cancel = (\<lambda>t w. map (\<lambda>i. (fst (w ! i), snd (w ! i) \<or> ref_descends w i t)) [0..<length w]),
      is_cancelled = (\<lambda>t w. t < length w \<and> snd (w ! t)),
      oneshot_channel = (\<lambda>w. (length w, w @ [Rx_waiting])),
      oneshot_send = (\<lambda>h r. ref_set h (Rx_value r)),
      oneshot_drop = (\<lambda>h. ref_set h Rx_closed),
      oneshot_poll = ref_poll,
      mpsc_channel = ([], True),
      mpsc_send = (\<lambda>m (q, up). if up then (True, (q @ [m], up)) else (False, (q, up))),
      mpsc_recv = (\<lambda>(q, up). case q of [] \<Rightarrow> (None, (q, up)) | m # q' \<Rightarrow> (Some m, (q', up))),
      mpsc_close = (\<lambda>(q, up). (q, False))\<rparr>"

lemma ref_tokio_simps:
  "is_cancelled ref_tokio t tw = (t < length tw \<and> snd (tw ! t))"
  "oneshot_channel ref_tokio ow = (length ow, ow @ [Rx_waiting])"
  "oneshot_send ref_tokio h r = ref_set h (Rx_value r)"
  "oneshot_drop ref_tokio h = ref_set h Rx_closed"
  "oneshot_poll ref_tokio = ref_poll"
  "mpsc_channel ref_tokio = ([], True)"
  "mpsc_send ref_tokio m (q, up) = (if up then (True, (q @ [m], up)) else (False, (q, up)))"
  "mpsc_close ref_tokio (q, up) = (q, False)"
  by (simp_all add: ref_tokio_def)

text \<open>The same runtime with a channel that also keeps what was received.\<close>

definition hist_tokio :: "(ref_tokens, oneshot_result list, message list \<times> message list \<times> bool) tokio" where
  "hist_tokio =
     \<lparr>token_new = token_new ref_tokio, child_token = child_token ref_tokio, token_cancel = token_cancel ref_tokio,
      is_cancelled = is_cancelled ref_tokio, oneshot_channel = oneshot_channel ref_tokio,
      oneshot_send = oneshot_send ref_tokio, oneshot_drop = oneshot_drop ref_tokio, oneshot_poll = oneshot_poll ref_tokio,
      mpsc_channel = ([], [], True),
      mpsc_send = (\<lambda>m (t, q, up). if up then (True, (t, q @ [m], up)) else (False, (t, q, up))),
      mpsc_recv = (\<lambda>(t, q, up). case q of [] \<Rightarrow> (None, (t, q, up)) | m # q' \<Rightarrow> (Some m, (t @ [m], q', up))),
      mpsc_close = (\<lambda>(t, q, up). (t, q, False))\<rparr>"

interpretation hist_rt: outbound_history hist_tokio "\<lambda>(t, q, up). q" "\<lambda>(t, q, up). t @ q" "\<lambda>(t, q, up). up" "\<lambda>(t, q, up). t"
  by unfold_locales (auto simp: hist_tokio_def split: list.splits if_splits prod.splits)

interpretation ref_rt: tokio_runtime ref_tokio ref_known ref_descends ref_opened fst snd
proof unfold_locales
  fix w :: ref_tokens and c w'
  assume "token_new ref_tokio w = (c, w')"
  then show "c \<notin> ref_known w \<and> ref_known w' = insert c (ref_known w) \<and> \<not> is_cancelled ref_tokio c w'
      \<and> (\<forall>u\<in>ref_known w. is_cancelled ref_tokio u w' = is_cancelled ref_tokio u w)
      \<and> (\<forall>u a. ref_descends w' u a \<longleftrightarrow> ref_descends w u a \<or> u = c \<and> a = c)"
    by (auto simp: ref_tokio_def ref_known_def ref_descends_def nth_append less_Suc_eq)
next
  fix t c :: token and w w' :: ref_tokens
  assume "child_token ref_tokio t w = (c, w')" "t \<in> ref_known w"
  then show "c \<notin> ref_known w \<and> ref_known w' = insert c (ref_known w)
      \<and> is_cancelled ref_tokio c w' = is_cancelled ref_tokio t w
      \<and> (\<forall>u\<in>ref_known w. is_cancelled ref_tokio u w' = is_cancelled ref_tokio u w)
      \<and> (\<forall>u a. ref_descends w' u a \<longleftrightarrow> ref_descends w u a \<or> u = c \<and> (a = c \<or> ref_descends w t a))"
    by (auto simp: ref_tokio_def ref_known_def ref_descends_def nth_append less_Suc_eq)
next
  fix t and w :: ref_tokens
  show "ref_descends (token_cancel ref_tokio t w) = ref_descends w"
    by (intro ext) (auto simp: ref_tokio_def ref_descends_def)
qed (auto simp: ref_tokio_def ref_known_def ref_descends_def ref_opened_def ref_poll_def ref_set_def
      nth_append split: list.splits if_splits prod.splits)

end
