(* ===== verification/Request_Queue.thy ===== *)
theory Request_Queue
  imports Tokio_Api
begin

text \<open>
  \<open>src/src/request_queue.rs\<close>: the parser of \<open>$/cancelRequest\<close> parameters and the trackers of
  incoming requests (with a cancellation token each) and of outgoing requests (with the sender
  of a oneshot channel each). A \<open>HashMap\<close> is a map; inserting over a present key drops the old
  value, which for a oneshot sender closes its receiver.
\<close>

definition cancel_request_method :: string where
  "cancel_request_method = ''$/cancelRequest''"

definition parse_cancel_params :: "json option \<Rightarrow> request_id option" where
  "parse_cancel_params params =
     Option.bind params (\<lambda>p.
     Option.bind (value_get p ''id'') (\<lambda>v.
       case v of
         JNumber n \<Rightarrow> map_option IntegerId (Option.bind (as_i64 n) i32_try_from)
       | JString s \<Rightarrow> Some (StringId s)
       | _ \<Rightarrow> None))"

subsection \<open>Incoming requests\<close>

record incoming_requests =
  in_pending :: "request_id \<rightharpoonup> token"

definition incoming_new :: incoming_requests where
  "incoming_new = \<lparr>in_pending = Map.empty\<rparr>"

definition incoming_default :: incoming_requests where
  "incoming_default = incoming_new"

definition incoming_register :: "incoming_requests \<Rightarrow> request_id \<Rightarrow> token \<Rightarrow> incoming_requests" where
  "incoming_register q i t = q\<lparr>in_pending := (in_pending q)(i \<mapsto> t)\<rparr>"

definition incoming_complete :: "incoming_requests \<Rightarrow> request_id \<Rightarrow> bool \<times> incoming_requests" where
  "incoming_complete q i = (in_pending q i \<noteq> None, q\<lparr>in_pending := (in_pending q)(i := None)\<rparr>)"

definition incoming_is_pending :: "incoming_requests \<Rightarrow> request_id \<Rightarrow> bool" where
  "incoming_is_pending q i = (in_pending q i \<noteq> None)"

definition incoming_cancel ::
  "('tw, 'ow, 'mw) tokio \<Rightarrow> incoming_requests \<Rightarrow> request_id \<Rightarrow> 'tw \<Rightarrow> bool \<times> 'tw" where
  "incoming_cancel tk q i w =
     (case in_pending q i of
        Some t \<Rightarrow> (True, token_cancel tk t w)
      | None \<Rightarrow> (False, w))"

definition incoming_get_token :: "incoming_requests \<Rightarrow> request_id \<Rightarrow> token option" where
  "incoming_get_token q i = in_pending q i"

definition incoming_pending_count :: "incoming_requests \<Rightarrow> nat" where
  "incoming_pending_count q = card (dom (in_pending q))"

subsection \<open>Outgoing requests\<close>

record outgoing_requests =
  out_pending :: "request_id \<rightharpoonup> oneshot"

definition outgoing_new :: outgoing_requests where
  "outgoing_new = \<lparr>out_pending = Map.empty\<rparr>"

definition outgoing_default :: outgoing_requests where
  "outgoing_default = outgoing_new"

definition outgoing_register ::
  "('tw, 'ow, 'mw) tokio \<Rightarrow> outgoing_requests \<Rightarrow> request_id \<Rightarrow> 'ow \<Rightarrow> oneshot \<times> outgoing_requests \<times> 'ow" where
  "outgoing_register tk q i w =
     (let (h, w1) = oneshot_channel tk w;
          w2 = (case out_pending q i of Some old \<Rightarrow> oneshot_drop tk old w1 | None \<Rightarrow> w1)
      in (h, q\<lparr>out_pending := (out_pending q)(i \<mapsto> h)\<rparr>, w2))"

definition outgoing_complete ::
  "('tw, 'ow, 'mw) tokio \<Rightarrow> outgoing_requests \<Rightarrow> request_id \<Rightarrow> response \<Rightarrow> 'ow
     \<Rightarrow> bool \<times> outgoing_requests \<times> 'ow" where
  "outgoing_complete tk q i r w =
     (case out_pending q i of
        Some h \<Rightarrow> (True, q\<lparr>out_pending := (out_pending q)(i := None)\<rparr>, oneshot_send tk h r w)
      | None \<Rightarrow> (False, q, w))"

definition outgoing_cancel ::
  "('tw, 'ow, 'mw) tokio \<Rightarrow> outgoing_requests \<Rightarrow> request_id \<Rightarrow> 'ow \<Rightarrow> bool \<times> outgoing_requests \<times> 'ow" where
  "outgoing_cancel tk q i w =
     (case out_pending q i of
        Some h \<Rightarrow> (True, q\<lparr>out_pending := (out_pending q)(i := None)\<rparr>, oneshot_drop tk h w)
      | None \<Rightarrow> (False, q, w))"

definition outgoing_is_pending :: "outgoing_requests \<Rightarrow> request_id \<Rightarrow> bool" where
  "outgoing_is_pending q i = (out_pending q i \<noteq> None)"

definition outgoing_pending_count :: "outgoing_requests \<Rightarrow> nat" where
  "outgoing_pending_count q = card (dom (out_pending q))"

record request_queue =
  incoming :: incoming_requests
  outgoing :: outgoing_requests

definition request_queue_new :: request_queue where
  "request_queue_new = \<lparr>incoming = incoming_new, outgoing = outgoing_new\<rparr>"

definition request_queue_default :: request_queue where
  "request_queue_default = request_queue_new"

text \<open>A sequence of calls on the outgoing tracker.\<close>

datatype out_op = OpRegister request_id | OpComplete request_id response | OpCancel request_id

fun op_id :: "out_op \<Rightarrow> request_id" where
  "op_id (OpRegister i) = i"
| "op_id (OpComplete i r) = i"
| "op_id (OpCancel i) = i"

fun out_step ::
  "('tw, 'ow, 'mw) tokio \<Rightarrow> out_op \<Rightarrow> outgoing_requests \<times> 'ow \<Rightarrow> outgoing_requests \<times> 'ow" where
  "out_step tk (OpRegister i) (q, w) = snd (outgoing_register tk q i w)"
| "out_step tk (OpComplete i r) (q, w) = snd (outgoing_complete tk q i r w)"
| "out_step tk (OpCancel i) (q, w) = snd (outgoing_cancel tk q i w)"

fun out_run ::
  "('tw, 'ow, 'mw) tokio \<Rightarrow> out_op list \<Rightarrow> outgoing_requests \<times> 'ow \<Rightarrow> outgoing_requests \<times> 'ow" where
  "out_run tk [] s = s"
| "out_run tk (x # xs) s = out_run tk xs (out_step tk x s)"

lemmas incoming_defs [queue_simps] =
  incoming_new_def incoming_register_def incoming_complete_def incoming_is_pending_def
  incoming_cancel_def incoming_get_token_def incoming_pending_count_def

lemmas outgoing_defs [queue_simps] =
  outgoing_new_def outgoing_register_def outgoing_complete_def outgoing_cancel_def
  outgoing_is_pending_def outgoing_pending_count_def

subsection \<open>The contract of a request tracker\<close>

text \<open>
  What the users of the trackers rely on. \<open>register\<close> files a handle under an id, \<open>retire\<close> is
  completion or cancellation and reports whether the id was pending; both may change a runtime
  state. The registered ids behave as a finite map.
\<close>

locale request_tracker =
  fixes lookup :: "'q \<Rightarrow> request_id \<rightharpoonup> 'h"
    and register :: "'q \<Rightarrow> request_id \<Rightarrow> 'w \<Rightarrow> 'h \<times> 'q \<times> 'w"
    and retire :: "'q \<Rightarrow> request_id \<Rightarrow> 'w \<Rightarrow> bool \<times> 'q \<times> 'w"
    and is_pending :: "'q \<Rightarrow> request_id \<Rightarrow> bool"
    and pending_count :: "'q \<Rightarrow> nat"
  assumes register_lookup: "register q i w = (h, q', w') \<Longrightarrow> lookup q' = (lookup q)(i \<mapsto> h)"
    and retire_lookup: "retire q i w = (ok, q', w') \<Longrightarrow>
      ok = (lookup q i \<noteq> None) \<and> lookup q' = (lookup q)(i := None)"
    and is_pending_iff: "is_pending q i \<longleftrightarrow> lookup q i \<noteq> None"
    and pending_count_eq: "pending_count q = card (dom (lookup q))"
begin

lemma register_pending:
  "register q i w = (h, q', w') \<Longrightarrow> is_pending q' j \<longleftrightarrow> j = i \<or> is_pending q j"
  by (drule register_lookup) (simp add: is_pending_iff)

lemma retire_pending:
  "retire q i w = (ok, q', w') \<Longrightarrow> is_pending q' j \<longleftrightarrow> j \<noteq> i \<and> is_pending q j"
  by (drule retire_lookup) (simp add: is_pending_iff)

lemma retire_reports: "retire q i w = (ok, q', w') \<Longrightarrow> ok \<longleftrightarrow> is_pending q i"
  by (auto simp: is_pending_iff dest: retire_lookup)

text \<open>A registered request is retired exactly once.\<close>

lemma retire_once:
  assumes "register q i w = (h, q1, w1)" and "retire q1 i w1' = (ok1, q2, w2)"
    and "retire q2 i w2' = (ok2, q3, w3)"
  shows "ok1 \<and> \<not> ok2 \<and> lookup q3 = (lookup q)(i := None)"
proof -
  have "lookup q1 = (lookup q)(i \<mapsto> h)"
    using assms(1) by (rule register_lookup)
  then show ?thesis
    using retire_lookup [OF assms(2)] retire_lookup [OF assms(3)] by auto
qed

lemma register_count:
  assumes "register q i w = (h, q', w')" and "finite (dom (lookup q))"
  shows "finite (dom (lookup q')) \<and>
    pending_count q' = (if is_pending q i then pending_count q else Suc (pending_count q))"
  using register_lookup [OF assms(1)] card_dom_upd [OF assms(2), of i h] assms(2)
  by (auto simp: pending_count_eq is_pending_iff)

lemma retire_count:
  assumes "retire q i w = (ok, q', w')" and "finite (dom (lookup q))"
  shows "finite (dom (lookup q')) \<and>
    pending_count q' = (if ok then pending_count q - 1 else pending_count q)"
  using retire_lookup [OF assms(1)] card_dom_del [OF assms(2), of i] assms(2)
  by (auto simp: pending_count_eq)

end

text \<open>For incoming requests the token is made by the caller: it is the runtime argument here.\<close>

interpretation incoming_tracker: request_tracker in_pending
  "\<lambda>q i t. (t, incoming_register q i t, t)" "\<lambda>q i t. (fst (incoming_complete q i), snd (incoming_complete q i), t)"
  incoming_is_pending incoming_pending_count
  by unfold_locales (auto simp: incoming_defs)

interpretation outgoing_tracker: request_tracker out_pending
  "outgoing_register tk" "outgoing_cancel tk" outgoing_is_pending outgoing_pending_count for tk
  by unfold_locales (auto simp: outgoing_defs Let_def split: prod.splits option.splits)

interpretation outgoing_completer: request_tracker out_pending
  "outgoing_register tk" "\<lambda>q i. outgoing_complete tk q i r" outgoing_is_pending outgoing_pending_count
  for tk r
  by unfold_locales (auto simp: outgoing_defs Let_def split: prod.splits option.splits)

subsection \<open>Channels behind pending ids\<close>

text \<open>
  The invariant of a map of oneshot senders: every filed sender belongs to an open channel whose
  receiver is still waiting, and no channel is filed twice.
\<close>

definition senders_ok ::
  "('tw, 'ow, 'mw) tokio \<Rightarrow> ('ow \<Rightarrow> oneshot set) \<Rightarrow> ('k \<rightharpoonup> oneshot) \<Rightarrow> 'ow \<Rightarrow> bool" where
  "senders_ok tk opened m w \<longleftrightarrow>
     inj_on m (dom m) \<and> (\<forall>i h. m i = Some h \<longrightarrow> h \<in> opened w \<and> oneshot_poll tk h w = Rx_waiting)"

lemma senders_ok_empty [simp]: "senders_ok tk opened Map.empty w"
  by (simp add: senders_ok_def)

context oneshot_channels
begin

lemma senders_distinct: "senders_ok tk opened m w \<Longrightarrow> m i = Some h \<Longrightarrow> m j = Some h \<Longrightarrow> i = j"
  by (auto simp: senders_ok_def inj_on_def dom_def)

lemma senders_waiting: "senders_ok tk opened m w \<Longrightarrow> m i = Some h \<Longrightarrow> oneshot_poll tk h w = Rx_waiting"
  by (auto simp: senders_ok_def)

text \<open>Filing a fresh sender; the sender it replaces is dropped.\<close>

lemma file_sender:
  assumes "senders_ok tk opened m w" and "oneshot_channel tk w = (h, w1)"
    and "w2 = (case m i of Some old \<Rightarrow> oneshot_drop tk old w1 | None \<Rightarrow> w1)"
  shows "senders_ok tk opened (m(i \<mapsto> h)) w2 \<and> h \<notin> opened w \<and> oneshot_poll tk h w2 = Rx_waiting
    \<and> (\<forall>g\<in>opened w. oneshot_poll tk g w2 = (if m i = Some g then Rx_closed else oneshot_poll tk g w))"
proof -
  have new: "h \<notin> opened w" "opened w1 = insert h (opened w)" "oneshot_poll tk h w1 = Rx_waiting"
    "\<And>g. g \<in> opened w \<Longrightarrow> oneshot_poll tk g w1 = oneshot_poll tk g w"
    using new_channel [OF assms(2)] by auto
  have filed: "g \<in> opened w \<and> oneshot_poll tk g w = Rx_waiting" if "m j = Some g" for j g
    using assms(1) that by (auto simp: senders_ok_def)
  have opened2: "opened w2 = insert h (opened w)"
    using assms(3) new by (auto split: option.splits)
  have poll: "oneshot_poll tk g w2 = (if m i = Some g then Rx_closed else oneshot_poll tk g w)"
    if "g \<in> opened w" for g
    using that assms(3) new drop_closes [of g w1] filed [of i g] by (cases "m i") auto
  have h2: "oneshot_poll tk h w2 = Rx_waiting"
  proof (cases "m i")
    case (Some old)
    then have "h \<noteq> old"
      using filed [of i old] new(1) by auto
    with Some assms(3) new show ?thesis
      by simp
  qed (use assms(3) new in simp)
  have "inj_on (m(i \<mapsto> h)) (dom (m(i \<mapsto> h)))"
    using senders_distinct [OF assms(1)] filed new(1) by (auto simp: inj_on_def split: if_splits)
  moreover have "g \<in> opened w2 \<and> oneshot_poll tk g w2 = Rx_waiting" if "(m(i \<mapsto> h)) j = Some g" for j g
    using that h2 opened2 poll [of g] filed [of j g] senders_distinct [OF assms(1), of i g j]
    by (auto split: if_splits)
  ultimately show ?thesis
    using new(1) h2 poll by (auto simp: senders_ok_def)
qed

text \<open>Taking a sender out of the map and using it up.\<close>

lemma take_sender:
  assumes "senders_ok tk opened m w" and "m i = Some h"
    and "w' = oneshot_send tk h r w \<and> v = Rx_value r \<or> w' = oneshot_drop tk h w \<and> v = Rx_closed"
  shows "senders_ok tk opened (m(i := None)) w' \<and> opened w' = opened w \<and> oneshot_poll tk h w' = v
    \<and> (\<forall>g. g \<noteq> h \<longrightarrow> oneshot_poll tk g w' = oneshot_poll tk g w)"
proof -
  have h: "h \<in> opened w" "oneshot_poll tk h w = Rx_waiting"
    using assms(1,2) by (auto simp: senders_ok_def)
  have w': "opened w' = opened w" "oneshot_poll tk h w' = v"
    "\<And>g. g \<noteq> h \<Longrightarrow> oneshot_poll tk g w' = oneshot_poll tk g w"
    using assms(3) send_value [OF h] drop_closes [OF h] by auto
  have "g \<noteq> h" if "(m(i := None)) j = Some g" for j g
    using that senders_distinct [OF assms(1,2), of j] by (auto split: if_splits)
  then have "senders_ok tk opened (m(i := None)) w'"
    using assms(1) w' unfolding senders_ok_def inj_on_def by (auto split: if_splits)
  with w' show ?thesis
    by blast
qed

end

subsection \<open>The outgoing tracker\<close>

context oneshot_channels
begin

lemma outgoing_register_effect:
  assumes "senders_ok tk opened (out_pending q) w" and r: "outgoing_register tk q i w = (h, q', w')"
  shows "senders_ok tk opened (out_pending q') w' \<and> out_pending q' = (out_pending q)(i \<mapsto> h)
    \<and> h \<notin> opened w \<and> oneshot_poll tk h w' = Rx_waiting \<and> opened w' = insert h (opened w)
    \<and> (\<forall>g\<in>opened w. oneshot_poll tk g w'
          = (if out_pending q i = Some g then Rx_closed else oneshot_poll tk g w))"
proof -
  obtain w1 where w1: "oneshot_channel tk w = (h, w1)"
    and w': "w' = (case out_pending q i of Some old \<Rightarrow> oneshot_drop tk old w1 | None \<Rightarrow> w1)"
    and q': "out_pending q' = (out_pending q)(i \<mapsto> h)"
    using r by (auto simp: outgoing_register_def Let_def split: prod.splits)
  have "opened w' = insert h (opened w)"
    using new_channel [OF w1] w' by (auto split: option.splits)
  with file_sender [OF assms(1) w1 w'] q' show ?thesis
    by simp
qed

lemma outgoing_complete_effect:
  assumes "senders_ok tk opened (out_pending q) w" and "outgoing_complete tk q i r w = (ok, q', w')"
  shows "senders_ok tk opened (out_pending q') w' \<and> opened w' = opened w
    \<and> (\<forall>g. oneshot_poll tk g w'
          = (if out_pending q i = Some g then Rx_value r else oneshot_poll tk g w))"
  using assms take_sender [OF assms(1), of i _ w' r "Rx_value r"]
  by (auto simp: outgoing_complete_def split: option.splits)

lemma outgoing_cancel_effect:
  assumes "senders_ok tk opened (out_pending q) w" and "outgoing_cancel tk q i w = (ok, q', w')"
  shows "senders_ok tk opened (out_pending q') w' \<and> opened w' = opened w
    \<and> (\<forall>g. oneshot_poll tk g w'
          = (if out_pending q i = Some g then Rx_closed else oneshot_poll tk g w))"
  using assms take_sender [OF assms(1), of i _ w' undefined Rx_closed]
  by (auto simp: outgoing_cancel_def split: option.splits)

text \<open>
  One call: it keeps the invariant, it does not change the entry of another id, and a receiver
  that no longer waits keeps its outcome.
\<close>

lemma out_step_effect:
  assumes "senders_ok tk opened (out_pending q) w" and "out_step tk x (q, w) = (q', w')"
  shows "senders_ok tk opened (out_pending q') w' \<and> opened w \<subseteq> opened w'
    \<and> (op_id x \<noteq> j \<longrightarrow> out_pending q' j = out_pending q j)
    \<and> (\<forall>g\<in>opened w. oneshot_poll tk g w \<noteq> Rx_waiting \<longrightarrow> oneshot_poll tk g w' = oneshot_poll tk g w)"
proof (cases x)
  case (OpRegister i)
  then obtain h where "outgoing_register tk q i w = (h, q', w')"
    using assms(2) by (cases "outgoing_register tk q i w") auto
  from outgoing_register_effect [OF assms(1) this] show ?thesis
    using OpRegister by (auto dest: senders_waiting [OF assms(1)])
next
  case (OpComplete i r)
  then obtain ok where c: "outgoing_complete tk q i r w = (ok, q', w')"
    using assms(2) by (cases "outgoing_complete tk q i r w") auto
  from outgoing_complete_effect [OF assms(1) this] show ?thesis
    using OpComplete outgoing_completer.retire_lookup [OF c] by (auto dest: senders_waiting [OF assms(1)])
next
  case (OpCancel i)
  then obtain ok where c: "outgoing_cancel tk q i w = (ok, q', w')"
    using assms(2) by (cases "outgoing_cancel tk q i w") auto
  from outgoing_cancel_effect [OF assms(1) this] show ?thesis
    using OpCancel outgoing_tracker.retire_lookup [OF c] by (auto dest: senders_waiting [OF assms(1)])
qed

lemma out_run_effect:
  assumes "senders_ok tk opened (out_pending q) w" and "out_run tk xs (q, w) = (q', w')"
  shows "senders_ok tk opened (out_pending q') w' \<and> opened w \<subseteq> opened w'
    \<and> (j \<notin> op_id ` set xs \<longrightarrow> out_pending q' j = out_pending q j)
    \<and> (\<forall>g\<in>opened w. oneshot_poll tk g w \<noteq> Rx_waiting \<longrightarrow> oneshot_poll tk g w' = oneshot_poll tk g w)"
  using assms
proof (induction xs arbitrary: q w)
  case (Cons x xs)
  obtain q1 w1 where s: "out_step tk x (q, w) = (q1, w1)"
    by (cases "out_step tk x (q, w)")
  have one: "senders_ok tk opened (out_pending q1) w1" "opened w \<subseteq> opened w1"
    "op_id x \<noteq> j \<Longrightarrow> out_pending q1 j = out_pending q j"
    "\<And>g. g \<in> opened w \<Longrightarrow> oneshot_poll tk g w \<noteq> Rx_waiting \<Longrightarrow> oneshot_poll tk g w1 = oneshot_poll tk g w"
    using out_step_effect [OF Cons.prems(1) s] by auto
  from Cons.IH [OF one(1)] Cons.prems(2) s one show ?case
    by (auto simp: subset_iff)
qed auto

end

subsection \<open>Properties\<close>

text \<open>
  Response correlation: after a request is registered, whatever is registered, completed or
  cancelled under other ids, completing its id delivers the response to the receiver that the
  registration returned.
\<close>

lemma outgoing_response_correlation:
  assumes "oneshot_channels tk opened" and "senders_ok tk opened (out_pending q) w"
    and "outgoing_register tk q i w = (h, q1, w1)"
    and "out_run tk xs (q1, w1) = (q2, w2)" and "i \<notin> op_id ` set xs"
    and "outgoing_complete tk q2 i r w2 = (ok, q3, w3)"
  shows "ok \<and> oneshot_poll tk h w3 = Rx_value r \<and> \<not> outgoing_is_pending q3 i
    \<and> senders_ok tk opened (out_pending q3) w3"
proof -
  have reg: "senders_ok tk opened (out_pending q1) w1" "out_pending q1 i = Some h"
    using oneshot_channels.outgoing_register_effect [OF assms(1-3)] by auto
  have run: "senders_ok tk opened (out_pending q2) w2" "out_pending q2 i = Some h"
    using oneshot_channels.out_run_effect [OF assms(1) reg(1) assms(4), of i] assms(5) reg(2) by auto
  have settled: "senders_ok tk opened (out_pending q3) w3" "oneshot_poll tk h w3 = Rx_value r"
    using oneshot_channels.outgoing_complete_effect [OF assms(1) run(1) assms(6)] run(2) by auto
  have "ok" "out_pending q3 i = None"
    using outgoing_completer.retire_lookup [OF assms(6)] run(2) by auto
  with settled show ?thesis
    by (simp add: outgoing_is_pending_def)
qed

lemma triple_collapse: "x = (fst x, fst (snd x), snd (snd x))"
  by simp

lemma outgoing_register_ref:
  "outgoing_register ref_tokio outgoing_new i [] = (0, snd (outgoing_register ref_tokio outgoing_new i []))"
  by (simp add: outgoing_register_def outgoing_new_def ref_tokio_def)

text \<open>
  A receiver settles once: in every sequence of calls the sender invariant is kept, and a
  receiver that has its response or was closed never changes again.
\<close>

lemma outgoing_receivers_settle_once:
  assumes "oneshot_channels tk opened" and "senders_ok tk opened (out_pending q) w"
    and "out_run tk xs (q, w) = (q', w')"
  shows "senders_ok tk opened (out_pending q') w'
    \<and> (\<forall>g\<in>opened w. oneshot_poll tk g w \<noteq> Rx_waiting \<longrightarrow> oneshot_poll tk g w' = oneshot_poll tk g w)"
  using oneshot_channels.out_run_effect [OF assms] by blast

text \<open>
  A cancellation addresses the request it names: the id read from the parameters of
  \<open>$/cancelRequest\<close> is the one the message deserialiser reads from the same JSON, and the
  parameters this library sends for an id are read back as that id.
\<close>

lemma parse_cancel_params_agrees:
  "parse_cancel_params (Some p) = Option.bind (value_get p ''id'') (\<lambda>v. res_ok (request_id_deserialize v))
   \<and> parse_cancel_params (Some (JObject [(''id'', request_id_serialize i)])) = Some i
   \<and> parse_cancel_params None = None"
proof -
  have "(case v of JNumber n \<Rightarrow> map_option IntegerId (Option.bind (as_i64 n) i32_try_from)
        | JString s \<Rightarrow> Some (StringId s) | _ \<Rightarrow> None) = res_ok (request_id_deserialize v)" for v
  proof (cases v)
    case (JNumber n)
    show ?thesis
      unfolding JNumber json.case i32_deserialize_as_i64 [symmetric]
      by (cases "i32_deserialize (JNumber n)")
        (simp_all add: request_id_deserialize_def string_deserialize_def)
  qed (simp_all add: request_id_deserialize_def i32_deserialize_def string_deserialize_def)
  then show ?thesis
    by (simp add: parse_cancel_params_def value_get_def)
qed

text \<open>
  An incoming request is pending from its registration to its completion, completion reports
  success exactly once, and the number of pending requests counts the distinct ids.
\<close>

lemma incoming_completed_once:
  assumes "finite (dom (in_pending q))" and "incoming_complete (incoming_register q i t) i = (ok1, q1)"
    and "incoming_complete q1 i = (ok2, q2)"
  shows "ok1 \<and> \<not> ok2 \<and> \<not> incoming_is_pending q1 i
    \<and> (\<forall>j. j \<noteq> i \<longrightarrow> incoming_get_token q2 j = incoming_get_token q j)
    \<and> incoming_pending_count (incoming_register q i t)
        = (if incoming_is_pending q i then incoming_pending_count q else Suc (incoming_pending_count q))
    \<and> incoming_pending_count q1 = incoming_pending_count (incoming_register q i t) - 1"
proof -
  have once: "ok1 \<and> \<not> ok2 \<and> in_pending q2 = (in_pending q)(i := None)"
    by (rule incoming_tracker.retire_once [where q = q and i = i and w = t and h = t and ?w1.0 = t and w1' = t
          and ?w2.0 = t and w2' = t and ?w3.0 = t and ?q1.0 = "incoming_register q i t" and ?q2.0 = q1])
      (use assms in simp_all)
  have r: "finite (dom (in_pending (incoming_register q i t)))
      \<and> incoming_pending_count (incoming_register q i t)
        = (if incoming_is_pending q i then incoming_pending_count q else Suc (incoming_pending_count q))"
    by (rule incoming_tracker.register_count [where q = q and i = i and w = t and h = t and w' = t])
      (use assms in simp_all)
  have "incoming_pending_count q1
      = (if ok1 then incoming_pending_count (incoming_register q i t) - 1
         else incoming_pending_count (incoming_register q i t))"
    by (rule incoming_tracker.retire_count [where q = "incoming_register q i t" and i = i and w = t and w' = t,
          THEN conjunct2]) (use assms r in simp_all)
  with once r show ?thesis
    using assms(2) by (auto simp: incoming_is_pending_def incoming_complete_def incoming_get_token_def)
qed

end
