(* ===== verification/Routing.thy ===== *)
theory Routing
  imports Request_Queue
begin

text \<open>
  \<open>src/src/routing.rs\<close>: the lifecycle method names, the classification of incoming messages and
  the two standard error responses.
\<close>

definition initialize_method :: string where
  "initialize_method = ''initialize''"

definition initialized_method :: string where
  "initialized_method = ''initialized''"

definition shutdown_method :: string where
  "shutdown_method = ''shutdown''"

definition exit_method :: string where
  "exit_method = ''exit''"

lemmas method_defs = initialize_method_def initialized_method_def shutdown_method_def exit_method_def

datatype incoming_message =
    IncomingRequest request token
  | IncomingNotification notification
  | CancelHandled
  | ResponseRouted
  | ResponseUnknown response

definition incoming_is_request :: "incoming_message \<Rightarrow> bool" where
  "incoming_is_request m = (case m of IncomingRequest _ _ \<Rightarrow> True | _ \<Rightarrow> False)"

definition incoming_is_notification :: "incoming_message \<Rightarrow> bool" where
  "incoming_is_notification m = (case m of IncomingNotification _ \<Rightarrow> True | _ \<Rightarrow> False)"

definition is_cancel_handled :: "incoming_message \<Rightarrow> bool" where
  "is_cancel_handled m = (case m of CancelHandled \<Rightarrow> True | _ \<Rightarrow> False)"

definition is_response_routed :: "incoming_message \<Rightarrow> bool" where
  "is_response_routed m = (case m of ResponseRouted \<Rightarrow> True | _ \<Rightarrow> False)"

definition is_response_unknown :: "incoming_message \<Rightarrow> bool" where
  "is_response_unknown m = (case m of ResponseUnknown _ \<Rightarrow> True | _ \<Rightarrow> False)"

definition method_not_found_response :: "request \<Rightarrow> response" where
  "method_not_found_response r =
     response_err (req_id r)
       (response_error_new MethodNotFound (''Method not found: '' @ req_method r))"

definition cancelled_response :: "request_id \<Rightarrow> response" where
  "cancelled_response i = response_err i (response_error_new RequestCancelled ''Request was cancelled'')"

end
