(* ===== verification/Lsp_Codec.thy ===== *)
theory Lsp_Codec
  imports Rpc_Message
begin

text \<open>
  \<open>src/src/codec.rs\<close>: the Content-Length framing of the wire protocol. The buffer
  \<open>BytesMut\<close> is a byte list; \<open>advance\<close> and \<open>split_to\<close> drop and take its front. The JSON text
  functions of \<open>serde_json\<close> are the arguments \<open>parse\<close> and \<open>print\<close>.
\<close>

subsection \<open>I/O errors\<close>

datatype io_kind = InvalidData | BrokenPipe | OtherKind

datatype io_cause =
    Io_text string
  | Io_utf8
  | Io_parse_int int_error
  | Io_json serde_error

datatype io_error = Io_error io_kind io_cause

subsection \<open>Searching and header parsing\<close>

definition header_terminator :: bytes where
  "header_terminator = [CHR 0x0D, CHR 0x0A, CHR 0x0D, CHR 0x0A]"

definition crlf :: bytes where
  "crlf = [CHR 0x0D, CHR 0x0A]"

definition find_subsequence :: "bytes \<Rightarrow> bytes \<Rightarrow> nat option" where
  "find_subsequence haystack needle =
     position (\<lambda>window. window = needle) (windows (length needle) haystack)"

lemma find_subsequence_less:
  assumes "find_subsequence h n = Some i" and "n \<noteq> []"
  shows "i + length n \<le> length h"
proof -
  have "i < Suc (length h) - length n"
    using assms(1) by (simp add: find_subsequence_def position_Some_iff)
  with assms(2) show ?thesis
    by simp
qed

text \<open>\<open>str::split("\r\n")\<close>.\<close>

function split_lines :: "string \<Rightarrow> string list" where
  "split_lines s =
     (case find_subsequence s crlf of
        None \<Rightarrow> [s]
      | Some i \<Rightarrow> take i s # split_lines (drop (i + length crlf) s))"
  by pat_completeness auto
termination
  by (relation "measure length") (auto simp: crlf_def dest!: find_subsequence_less)

declare split_lines.simps [simp del]

definition content_length_name :: string where
  "content_length_name = ''content-length:''"

fun content_length_of_lines :: "string list \<Rightarrow> io_error + nat" where
  "content_length_of_lines [] =
     Inl (Io_error InvalidData (Io_text ''Missing Content-Length header''))"
| "content_length_of_lines (line # ls) =
     (if take (length content_length_name) (to_ascii_lowercase line) = content_length_name then
        (case parse_usize (trim (drop (length content_length_name) line)) of
           Inl e \<Rightarrow> Inl (Io_error InvalidData (Io_parse_int e))
         | Inr n \<Rightarrow> Inr n)
      else content_length_of_lines ls)"

definition parse_content_length :: "bytes \<Rightarrow> io_error + nat" where
  "parse_content_length headers =
     (if \<not> utf8_valid headers then Inl (Io_error InvalidData Io_utf8)
      else content_length_of_lines (split_lines headers))"

subsection \<open>The codec\<close>

record lsp_codec =
  content_length :: "nat option"

definition codec_new :: lsp_codec where
  "codec_new = \<lparr>content_length = None\<rparr>"

text \<open>\<open>serde_json::from_slice::<Message>\<close> and \<open>serde_json::to_vec\<close> on a message.\<close>

definition message_from_slice ::
  "(bytes \<Rightarrow> serde_error + json) \<Rightarrow> bytes \<Rightarrow> serde_error + message" where
  "message_from_slice parse body = res_bind (parse body) message_deserialize"

definition message_to_vec ::
  "(json \<Rightarrow> serde_error + bytes) \<Rightarrow> message \<Rightarrow> serde_error + bytes" where
  "message_to_vec print m = print (message_serialize m)"

text \<open>The second half of \<open>decode\<close>, from the check of the parsed length on.\<close>

definition decode_body ::
  "(bytes \<Rightarrow> serde_error + json) \<Rightarrow> lsp_codec \<Rightarrow> bytes
     \<Rightarrow> (io_error + message option) \<times> lsp_codec \<times> bytes" where
  "decode_body parse c src =
     (case content_length c of
        None \<Rightarrow>
          (Inl (Io_error InvalidData (Io_text (''missing Content-Length state: expected parsed headers ''
             @ ''before body, received empty decoder state''))), c, src)
      | Some n \<Rightarrow>
          if length src < n then (Inr None, c, src)
          else
            (case message_from_slice parse (take n src) of
               Inl e \<Rightarrow> (Inl (Io_error InvalidData (Io_json e)), c\<lparr>content_length := None\<rparr>, drop n src)
             | Inr m \<Rightarrow> (Inr (Some m), c\<lparr>content_length := None\<rparr>, drop n src)))"

definition decode ::
  "(bytes \<Rightarrow> serde_error + json) \<Rightarrow> lsp_codec \<Rightarrow> bytes
     \<Rightarrow> (io_error + message option) \<times> lsp_codec \<times> bytes" where
  "decode parse c src =
     (if content_length c = None then
        (case find_subsequence src header_terminator of
           None \<Rightarrow> (Inr None, c, src)
         | Some header_end \<Rightarrow>
             (case parse_content_length (take header_end src) of
                Inl e \<Rightarrow> (Inl e, c, src)
              | Inr n \<Rightarrow>
                  decode_body parse (c\<lparr>content_length := Some n\<rparr>)
                    (drop (header_end + length header_terminator) src)))
      else decode_body parse c src)"

definition encode ::
  "(json \<Rightarrow> serde_error + bytes) \<Rightarrow> lsp_codec \<Rightarrow> message \<Rightarrow> bytes
     \<Rightarrow> (io_error + unit) \<times> lsp_codec \<times> bytes" where
  "encode print c item dst =
     (case message_to_vec print item of
        Inl e \<Rightarrow> (Inl (Io_error InvalidData (Io_json e)), c, dst)
      | Inr json \<Rightarrow>
          (Inr (), c, dst @ (''Content-Length: '' @ show_nat (length json) @ header_terminator) @ json))"

text \<open>The bytes of several messages encoded one after the other.\<close>

fun encode_all :: "(json \<Rightarrow> serde_error + bytes) \<Rightarrow> message list \<Rightarrow> bytes \<Rightarrow> bytes" where
  "encode_all print [] dst = dst"
| "encode_all print (m # ms) dst = encode_all print ms (snd (snd (encode print codec_new m dst)))"

text \<open>
  What the codec relies on in the JSON text functions: the text of a message's document fits
  a \<open>usize\<close> and parses back to the document.
\<close>

definition json_text_faithful ::
  "(bytes \<Rightarrow> serde_error + json) \<Rightarrow> (json \<Rightarrow> serde_error + bytes) \<Rightarrow> message \<Rightarrow> bool" where
  "json_text_faithful parse print m \<longleftrightarrow>
     (\<exists>body. print (message_serialize m) = Inr body \<and> length body \<le> usize_max
        \<and> parse body = Inr (message_serialize m))"

subsection \<open>The reader of a framed transport\<close>

text \<open>
  What a reader does with a decoder: \<open>frames\<close> decodes from the buffer until more bytes are
  needed, \<open>feeds\<close> appends the chunks of the byte stream one by one and decodes after each.
\<close>

inductive frames ::
  "('c \<Rightarrow> bytes \<Rightarrow> ('e + 'm option) \<times> 'c \<times> bytes) \<Rightarrow> 'c \<Rightarrow> bytes \<Rightarrow> 'm list \<Rightarrow> 'c \<Rightarrow> bytes \<Rightarrow> bool"
  for dec where
  frames_none: "dec c b = (Inr None, c', b') \<Longrightarrow> frames dec c b [] c' b'"
| frames_some: "dec c b = (Inr (Some m), c1, b1) \<Longrightarrow> frames dec c1 b1 ms c' b'
    \<Longrightarrow> frames dec c b (m # ms) c' b'"

inductive feeds ::
  "('c \<Rightarrow> bytes \<Rightarrow> ('e + 'm option) \<times> 'c \<times> bytes) \<Rightarrow> 'c \<Rightarrow> bytes \<Rightarrow> bytes list
     \<Rightarrow> 'm list \<Rightarrow> 'c \<Rightarrow> bytes \<Rightarrow> bool"
  for dec where
  feeds_nil: "feeds dec c b [] [] c b"
| feeds_chunk: "frames dec c (b @ x) ms c1 b1 \<Longrightarrow> feeds dec c1 b1 xs ms' c' b'
    \<Longrightarrow> feeds dec c b (x # xs) (ms @ ms') c' b'"

inductive_cases feeds_nil_elim [elim!]: "feeds dec c b [] ms c' b'"
inductive_cases feeds_chunk_elim: "feeds dec c b (x # xs) ms c' b'"

text \<open>
  The contract a reader needs of a decoder: bytes that arrive later never change what the bytes
  so far decode to, and a decoder that asked for more continues from where it stopped.
\<close>

locale streaming_decoder =
  fixes dec :: "'c \<Rightarrow> bytes \<Rightarrow> ('e + 'm option) \<times> 'c \<times> bytes"
  assumes dec_more: "dec c b = (Inr None, c', b') \<Longrightarrow> dec c (b @ x) = dec c' (b' @ x)"
    and dec_done: "dec c b = (r, c', b') \<Longrightarrow> r \<noteq> Inr None \<Longrightarrow> dec c (b @ x) = (r, c', b' @ x)"
begin

lemma frames_split:
  assumes "frames dec c b ms c' b'" and "b = a @ x"
  shows "\<exists>ms1 ms2 c1 b1. frames dec c a ms1 c1 b1 \<and> frames dec c1 (b1 @ x) ms2 c' b' \<and> ms = ms1 @ ms2"
  using assms
proof (induction arbitrary: a rule: frames.induct)
  case (frames_none c b c' b')
  obtain r c1 b1 where d: "dec c a = (r, c1, b1)"
    by (cases "dec c a")
  have "r = Inr None"
    using dec_done [OF d, of x] frames_none by auto
  then have "frames dec c a [] c1 b1" and "frames dec c1 (b1 @ x) [] c' b'"
    using d dec_more [of c a c1 b1 x] frames_none by (auto intro: frames.intros)
  then show ?case
    by force
next
  case (frames_some c b m c2 b2 ms c' b')
  obtain r c1 b1 where d: "dec c a = (r, c1, b1)"
    by (cases "dec c a")
  show ?case
  proof (cases "r = Inr None")
    case True
    then have "dec c1 (b1 @ x) = (Inr (Some m), c2, b2)"
      using d dec_more [of c a c1 b1 x] frames_some by simp
    then have "frames dec c1 (b1 @ x) (m # ms) c' b'"
      using frames_some.hyps by (blast intro: frames.intros)
    then show ?thesis
      using d True by (metis append_Nil frames.frames_none)
  next
    case False
    then have "r = Inr (Some m)" "c1 = c2" "b2 = b1 @ x"
      using dec_done [OF d, of x] frames_some by auto
    with frames_some.IH [of b1] d show ?thesis
      by (metis append_Cons frames.frames_some)
  qed
qed

lemma frames_join:
  assumes "frames dec c a ms1 c1 b1" and "frames dec c1 (b1 @ x) ms2 c' b'"
  shows "frames dec c (a @ x) (ms1 @ ms2) c' b'"
  using assms
proof (induction rule: frames.induct)
  case (frames_none c a c1 b1)
  then have "dec c (a @ x) = dec c1 (b1 @ x)"
    by (intro dec_more)
  note same = this
  show ?case
    using frames_none.prems by (cases rule: frames.cases) (auto simp: same intro: frames.intros)
next
  case (frames_some c a m c2 b2 ms c1 b1)
  then have "dec c (a @ x) = (Inr (Some m), c2, b2 @ x)"
    by (intro dec_done) auto
  with frames_some show ?case
    by (auto intro: frames.intros)
qed

lemma feeds_concat:
  assumes "frames dec c (b @ concat xs) ms c' b'" and "xs \<noteq> []"
  shows "feeds dec c b xs ms c' b'"
  using assms
proof (induction xs arbitrary: c b ms)
  case (Cons x xs)
  obtain ms1 ms2 c1 b1 where s: "frames dec c (b @ x) ms1 c1 b1"
    "frames dec c1 (b1 @ concat xs) ms2 c' b'" "ms = ms1 @ ms2"
    using frames_split [OF Cons.prems(1), of "b @ x" "concat xs"] by auto
  show ?case
  proof (cases "xs = []")
    case False
    with Cons.IH s(2) have "feeds dec c1 b1 xs ms2 c' b'"
      by blast
    with s show ?thesis
      by (auto intro: feeds.intros)
  next
    case True
    then have "frames dec c (b @ x) ms c' b'"
      using Cons.prems(1) by simp
    then show ?thesis
      using True feeds.feeds_chunk [OF _ feeds.feeds_nil] by fastforce
  qed
qed simp

lemma concat_feeds:
  assumes "feeds dec c b xs ms c' b'" and "xs \<noteq> []"
  shows "frames dec c (b @ concat xs) ms c' b'"
  using assms
proof (induction rule: feeds.induct)
  case (feeds_chunk c b x ms c1 b1 xs ms' c' b')
  show ?case
  proof (cases "xs = []")
    case True
    with feeds_chunk show ?thesis
      by (auto elim: feeds.cases)
  next
    case False
    with feeds_chunk have "frames dec c1 (b1 @ concat xs) ms' c' b'"
      by blast
    with feeds_chunk.hyps(1) frames_join show ?thesis
      by fastforce
  qed
qed simp

text \<open>Where the chunk boundaries fall makes no difference.\<close>

lemma chunking:
  "xs \<noteq> [] \<Longrightarrow> feeds dec c b xs ms c' b' \<longleftrightarrow> frames dec c (b @ concat xs) ms c' b'"
  using feeds_concat concat_feeds by blast

end

subsection \<open>Searching\<close>

lemma find_subsequence_iff:
  assumes "n \<noteq> []"
  shows "find_subsequence h n = Some i \<longleftrightarrow>
    i + length n \<le> length h \<and> take (length n) (drop i h) = n \<and> (\<forall>j<i. take (length n) (drop j h) \<noteq> n)"
    (is "?l \<longleftrightarrow> ?r")
proof
  assume ?l
  then have "i < Suc (length h) - length n" "windows (length n) h ! i = n"
    "\<forall>j<i. windows (length n) h ! j \<noteq> n"
    by (simp_all add: find_subsequence_def position_Some_iff)
  with assms show ?r
    using find_subsequence_less [OF \<open>?l\<close>] by (auto simp: nth_windows)
next
  assume r: ?r
  then have "i < Suc (length h) - length n"
    by linarith
  with r show ?l
    by (auto simp: find_subsequence_def position_Some_iff nth_windows)
qed

lemma find_subsequence_append:
  assumes "find_subsequence h n = Some i" and "n \<noteq> []"
  shows "find_subsequence (h @ x) n = Some i"
proof -
  have i: "i + length n \<le> length h" "take (length n) (drop i h) = n"
    "\<forall>j<i. take (length n) (drop j h) \<noteq> n"
    using assms find_subsequence_iff by auto
  have same: "take (length n) (drop j (h @ x)) = take (length n) (drop j h)" if "j \<le> i" for j
    using that i(1) by (simp add: drop_append_le)
  show ?thesis
    unfolding find_subsequence_iff [OF assms(2)] using i by (auto simp: same)
qed

lemma find_subsequence_first:
  assumes "n \<noteq> []" and "hd n \<notin> set h"
  shows "find_subsequence (h @ n @ x) n = Some (length h)"
proof -
  have "take (length n) (drop j (h @ n @ x)) \<noteq> n" if "j < length h" for j
  proof
    assume t: "take (length n) (drop j (h @ n @ x)) = n"
    have "hd (take (length n) (drop j (h @ n @ x))) = h ! j"
      using that assms(1) by (simp add: hd_drop_conv_nth nth_append)
    with t that assms(2) show False
      by (metis nth_mem)
  qed
  then show ?thesis
    by (simp add: find_subsequence_iff [OF assms(1)])
qed

lemma find_subsequence_absent:
  assumes "n \<noteq> []" and "hd n \<notin> set h"
  shows "find_subsequence h n = None"
proof (rule ccontr)
  assume "find_subsequence h n \<noteq> None"
  then obtain i where "find_subsequence h n = Some i"
    by auto
  then have i: "i + length n \<le> length h" "take (length n) (drop i h) = n"
    using find_subsequence_iff [OF assms(1)] by auto
  then have "hd n = hd (drop i h)"
    using assms(1) by (metis hd_take length_greater_0_conv)
  also have "\<dots> = h ! i"
    using i assms(1) by (intro hd_drop_conv_nth) (cases n; simp)
  finally show False
    using i assms by (cases n) auto
qed

text \<open>The needle occurs at an offset.\<close>

definition occurs_at :: "bytes \<Rightarrow> bytes \<Rightarrow> nat \<Rightarrow> bool" where
  "occurs_at h n j \<longleftrightarrow> (\<exists>pre post. h = pre @ n @ post \<and> length pre = j)"

lemma occurs_at_iff:
  "occurs_at h n j \<longleftrightarrow> j + length n \<le> length h \<and> take (length n) (drop j h) = n"
proof
  assume a: "j + length n \<le> length h \<and> take (length n) (drop j h) = n"
  let ?post = "drop (length n) (drop j h)"
  have "drop j h = n @ ?post"
    using a append_take_drop_id [of "length n" "drop j h"] by simp
  then have "h = take j h @ n @ ?post"
    using append_take_drop_id [of j h] by metis
  moreover have "length (take j h) = j"
    using a by simp
  ultimately show "occurs_at h n j"
    unfolding occurs_at_def by blast
qed (auto simp: occurs_at_def)

lemma find_subsequence_occurrence:
  assumes "n \<noteq> []"
  shows "find_subsequence h n = Some i \<longleftrightarrow> occurs_at h n i \<and> (\<forall>j. occurs_at h n j \<longrightarrow> i \<le> j)"
proof -
  have "(\<forall>j. occurs_at h n j \<longrightarrow> i \<le> j) \<longleftrightarrow> (\<forall>j<i. take (length n) (drop j h) \<noteq> n)"
    if "occurs_at h n i"
  proof -
    have "occurs_at h n j \<longleftrightarrow> take (length n) (drop j h) = n" if "j < i" for j
      using that \<open>occurs_at h n i\<close> by (simp add: occurs_at_iff)
    then show ?thesis
      using leI by (metis leD)
  qed
  then show ?thesis
    unfolding find_subsequence_iff [OF assms] by (auto simp: occurs_at_iff)
qed

lemma find_subsequence_None:
  assumes "n \<noteq> []"
  shows "find_subsequence h n = None \<longleftrightarrow> (\<forall>j. \<not> occurs_at h n j)"
proof
  assume none: "find_subsequence h n = None"
  show "\<forall>j. \<not> occurs_at h n j"
  proof (intro allI notI)
    fix j
    assume "occurs_at h n j"
    then have "find_subsequence h n = Some (LEAST j. occurs_at h n j)"
      unfolding find_subsequence_occurrence [OF assms] by (auto intro: LeastI Least_le)
    with none show False
      by simp
  qed
next
  assume "\<forall>j. \<not> occurs_at h n j"
  then show "find_subsequence h n = None"
    using find_subsequence_occurrence [OF assms] by (cases "find_subsequence h n") auto
qed

lemma header_terminator_simps [simp]:
  "header_terminator \<noteq> []" "length header_terminator = 4" "hd header_terminator = CHR 0x0D"
  "crlf \<noteq> []" "hd crlf = CHR 0x0D" "length crlf = 2"
  by (simp_all add: header_terminator_def crlf_def)

subsection \<open>The header of an encoded message\<close>

lemma digits_not_CR: "c \<in> set (show_nat n) \<Longrightarrow> c \<noteq> CHR 0x0D"
  using show_nat_digits [of c n] by auto

lemma content_length_name_chars:
  assumes "to_ascii_lowercase name = content_length_name" and "c \<in> set name"
  shows "byte_val c < 128 \<and> c \<noteq> CHR 0x0D"
proof -
  let ?low = "\<lambda>c. if 65 \<le> byte_val c \<and> byte_val c \<le> 90 then char_of (byte_val c + 32) else c"
  have "?low c \<in> set (to_ascii_lowercase name)"
    unfolding to_ascii_lowercase_def set_map using assms(2) by (rule imageI)
  then have "?low c \<in> set content_length_name"
    by (simp only: assms(1))
  then show ?thesis
    by (auto simp: content_length_name_def split: if_splits)
qed

lemma parse_header_any_case:
  assumes "n \<le> usize_max" and name: "to_ascii_lowercase name = content_length_name"
  shows "parse_content_length (name @ '' '' @ show_nat n) = Inr n"
proof -
  let ?h = "name @ '' '' @ show_nat n"
  have chars: "byte_val c < 128 \<and> c \<noteq> CHR 0x0D" if "c \<in> set ?h" for c
    using that content_length_name_chars [OF name] show_nat_digits [of c n] by auto
  have len: "length name = length content_length_name"
    unfolding name [symmetric] by (simp add: to_ascii_lowercase_def)
  have "utf8_valid ?h"
    by (rule utf8_valid_ascii) (use chars in blast)
  moreover have "find_subsequence ?h crlf = None"
    by (rule find_subsequence_absent) (use chars in auto)
  then have "split_lines ?h = [?h]"
    by (subst split_lines.simps) simp
  moreover have "take (length content_length_name) (to_ascii_lowercase ?h) = content_length_name"
    using name len by (simp add: to_ascii_lowercase_def)
  moreover have "trim (CHR '' '' # show_nat n) = show_nat n"
    by (rule trim_space_digits) (use show_nat_digits in auto)
  then have "parse_usize (trim (drop (length content_length_name) ?h)) = Inr n"
    using parse_usize_show_nat [OF assms(1)] len by simp
  ultimately show ?thesis
    unfolding parse_content_length_def by simp
qed

lemma parse_encoded_header:
  "n \<le> usize_max \<Longrightarrow> parse_content_length (''Content-Length: '' @ show_nat n) = Inr n"
proof -
  have "to_ascii_lowercase ''Content-Length:'' = content_length_name"
    by code_simp
  from parse_header_any_case [OF _ this] show "n \<le> usize_max \<Longrightarrow> ?thesis"
    by simp
qed

subsection \<open>The decoder as a streaming decoder\<close>

lemma decode_body_append:
  assumes "decode_body parse c b = (r, c', b')" and "content_length c \<noteq> None"
  shows "if r = Inr None then c' = c \<and> b' = b
         else decode_body parse c (b @ x) = (r, c', b' @ x)"
  using assms by (auto simp: decode_body_def split: option.splits if_splits sum.splits)

text \<open>A buffer with a complete and valid header.\<close>

lemma decode_header:
  assumes "content_length c = None" and "find_subsequence b header_terminator = Some i"
    and "parse_content_length (take i b) = Inr n"
  shows "decode parse c (b @ x)
           = decode_body parse (c\<lparr>content_length := Some n\<rparr>) (drop (i + 4) b @ x)"
proof -
  have i: "i + 4 \<le> length b"
    using find_subsequence_less [OF assms(2)] by simp
  have "find_subsequence (b @ x) header_terminator = Some i"
    by (rule find_subsequence_append [OF assms(2)]) simp
  then show ?thesis
    using assms i by (simp add: decode_def)
qed

text \<open>A header that does not parse: the buffer stays as it is, whatever follows it.\<close>

lemma decode_bad_header:
  assumes "content_length c = None" and "find_subsequence b header_terminator = Some i"
    and "parse_content_length (take i b) = Inl e"
  shows "decode parse c (b @ x) = (Inl e, c, b @ x)"
proof -
  have "i \<le> length b"
    using find_subsequence_less [OF assms(2)] by simp
  moreover have "find_subsequence (b @ x) header_terminator = Some i"
    by (rule find_subsequence_append [OF assms(2)]) simp
  ultimately show ?thesis
    using assms by (simp add: decode_def)
qed

lemma decode_more:
  assumes "decode parse c b = (Inr None, c', b')"
  shows "decode parse c (b @ x) = decode parse c' (b' @ x)"
proof (cases "content_length c")
  case None
  show ?thesis
  proof (cases "find_subsequence b header_terminator")
    case None': None
    then show ?thesis
      using assms None by (simp add: decode_def)
  next
    case (Some i)
    then obtain n where n: "parse_content_length (take i b) = Inr n"
      using assms None by (cases "parse_content_length (take i b)") (auto simp: decode_def)
    let ?c = "c\<lparr>content_length := Some n\<rparr>"
    have "decode_body parse ?c (drop (i + 4) b) = (Inr None, c', b')"
      using assms decode_header [OF None Some n, of parse "[]"] by simp
    then have "c' = ?c" "b' = drop (i + 4) b"
      using decode_body_append [of parse ?c "drop (i + 4) b" "Inr None" c' b'] by auto
    then show ?thesis
      using decode_header [OF None Some n, of parse x] by (simp add: decode_def)
  qed
next
  case (Some n)
  then have "decode_body parse c b = (Inr None, c', b')"
    using assms by (simp add: decode_def)
  then show ?thesis
    using decode_body_append [of parse c b "Inr None" c' b'] Some by simp
qed

lemma decode_done:
  assumes "decode parse c b = (r, c', b')" and "r \<noteq> Inr None"
  shows "decode parse c (b @ x) = (r, c', b' @ x)"
proof (cases "content_length c")
  case None
  then obtain i where i: "find_subsequence b header_terminator = Some i"
    using assms by (cases "find_subsequence b header_terminator") (auto simp: decode_def)
  show ?thesis
  proof (cases "parse_content_length (take i b)")
    case (Inl e)
    then show ?thesis
      using decode_bad_header [OF None i Inl, of parse x] decode_bad_header [OF None i Inl, of parse "[]"]
        assms by simp
  next
    case (Inr n)
    let ?c = "c\<lparr>content_length := Some n\<rparr>"
    have "decode_body parse ?c (drop (i + 4) b) = (r, c', b')"
      using assms decode_header [OF None i Inr, of parse "[]"] by simp
    then show ?thesis
      using decode_body_append [of parse ?c "drop (i + 4) b" r c' b' x] assms(2)
        decode_header [OF None i Inr, of parse x] by simp
  qed
next
  case (Some n)
  then show ?thesis
    using assms decode_body_append [of parse c b r c' b' x] by (simp add: decode_def)
qed

interpretation lsp_stream: streaming_decoder "decode parse" for parse
  by unfold_locales (fact decode_more, fact decode_done)

subsection \<open>Decoding what was encoded\<close>

lemma decode_after_header:
  assumes "n \<le> usize_max"
  shows "decode parse codec_new ((''Content-Length: '' @ show_nat n @ header_terminator) @ b)
    = decode_body parse \<lparr>content_length = Some n\<rparr> b"
proof -
  define h where "h = ''Content-Length: '' @ show_nat n"
  have find: "find_subsequence (h @ header_terminator @ b) header_terminator = Some (length h)"
    by (rule find_subsequence_first) (auto simp: h_def dest: digits_not_CR)
  have head: "parse_content_length (take (length h) (h @ header_terminator @ b)) = Inr n"
    using parse_encoded_header [OF assms] by (simp add: h_def)
  have tail: "drop (length h + 4) (h @ header_terminator @ b) = b"
    by simp
  have "decode parse codec_new (h @ header_terminator @ b)
      = decode_body parse (codec_new\<lparr>content_length := Some n\<rparr>) b"
    using decode_header [OF _ find head, of codec_new parse "[]"] tail
    by (simp add: codec_new_def)
  then show ?thesis
    by (simp add: codec_new_def h_def)
qed

lemma decode_frame:
  assumes "length body \<le> usize_max"
  shows "decode parse codec_new
      ((''Content-Length: '' @ show_nat (length body) @ header_terminator) @ body @ rest)
    = (case message_from_slice parse body of
         Inl e \<Rightarrow> (Inl (Io_error InvalidData (Io_json e)), codec_new, rest)
       | Inr m \<Rightarrow> (Inr (Some m), codec_new, rest))"
  unfolding decode_after_header [OF assms]
  by (simp add: decode_body_def codec_new_def split: sum.split)

lemma encode_frame:
  assumes "json_text_faithful parse print m" and "message_wf m"
  obtains body where "length body \<le> usize_max" and "message_from_slice parse body = Inr (message_canon m)"
    and "\<And>dst. encode print c m dst =
      (Inr (), c, dst @ (''Content-Length: '' @ show_nat (length body) @ header_terminator) @ body)"
proof -
  obtain body where "print (message_serialize m) = Inr body" "length body \<le> usize_max"
    "parse body = Inr (message_serialize m)"
    using assms(1) by (auto simp: json_text_faithful_def)
  then show ?thesis
    using that [of body] assms(2)
    by (simp add: message_from_slice_def message_roundtrip encode_def message_to_vec_def)
qed

lemma encode_all_append:
  "encode_all print ms dst = dst @ encode_all print ms []"
proof (induction ms arbitrary: dst)
  case (Cons m ms)
  have "snd (snd (encode print codec_new m dst)) = dst @ snd (snd (encode print codec_new m []))"
    by (simp add: encode_def split: sum.split)
  then show ?case
    using Cons.IH [of "snd (snd (encode print codec_new m dst))"]
      Cons.IH [of "snd (snd (encode print codec_new m []))"] by simp
qed simp

lemma frames_encode_all:
  assumes "\<forall>m\<in>set ms. message_wf m \<and> json_text_faithful parse print m"
  shows "frames (decode parse) codec_new (encode_all print ms []) (map message_canon ms) codec_new []"
  using assms
proof (induction ms)
  case Nil
  have "find_subsequence [] header_terminator = None"
    by (rule find_subsequence_absent) simp_all
  then show ?case
    by (auto intro!: frames.intros simp: decode_def codec_new_def)
next
  case (Cons m ms)
  then obtain body where body: "length body \<le> usize_max"
    "message_from_slice parse body = Inr (message_canon m)"
    "\<And>dst. encode print codec_new m dst =
      (Inr (), codec_new, dst @ (''Content-Length: '' @ show_nat (length body) @ header_terminator) @ body)"
    by (metis encode_frame list.set_intros(1))
  have "decode parse codec_new (encode_all print (m # ms) [])
      = (Inr (Some (message_canon m)), codec_new, encode_all print ms [])"
    using decode_frame [OF body(1), of parse "encode_all print ms []"] body(2)
    by (simp add: body(3) encode_all_append [of print ms "_ # _"])
  moreover have "frames (decode parse) codec_new (encode_all print ms []) (map message_canon ms) codec_new []"
    using Cons by simp
  ultimately show ?case
    by (auto intro: frames.intros)
qed

subsection \<open>Every buffer is decoded in finitely many calls\<close>

text \<open>
  What is left to decode: the bytes in the buffer, and one more call while the length of a body is
  known. Every call that gives a message makes it smaller.
\<close>

definition undecoded :: "lsp_codec \<Rightarrow> bytes \<Rightarrow> nat" where
  "undecoded c b = length b + (if content_length c = None then 0 else 1)"

lemma decode_body_shrinks:
  "decode_body parse c b = (Inr (Some m), c', b') \<Longrightarrow> undecoded c' b' \<le> length b \<and> content_length c' = None"
  by (auto simp: decode_body_def undecoded_def split: option.splits if_splits sum.splits)

lemma decode_shrinks:
  assumes "decode parse c b = (Inr (Some m), c', b')"
  shows "undecoded c' b' < undecoded c b"
proof (cases "content_length c")
  case None
  then obtain i n where i: "find_subsequence b header_terminator = Some i"
    "decode_body parse (c\<lparr>content_length := Some n\<rparr>) (drop (i + 4) b) = (Inr (Some m), c', b')"
    using assms by (auto simp: decode_def split: option.splits sum.splits)
  have "length (drop (i + 4) b) < length b"
    using find_subsequence_less [OF i(1)] by simp
  then show ?thesis
    using decode_body_shrinks [OF i(2)] None by (simp add: undecoded_def)
next
  case (Some n)
  then have "decode_body parse c b = (Inr (Some m), c', b')"
    using assms by (simp add: decode_def)
  from decode_body_shrinks [OF this] show ?thesis
    using Some by (simp add: undecoded_def)
qed

text \<open>
  The messages a buffer holds: \<open>decode\<close> is called until it asks for more bytes (\<open>None\<close>) or reports an
  error.
\<close>

function decode_all ::
  "(bytes \<Rightarrow> serde_error + json) \<Rightarrow> lsp_codec \<Rightarrow> bytes
     \<Rightarrow> message list \<times> io_error option \<times> lsp_codec \<times> bytes" where
  "decode_all parse c b =
     (case decode parse c b of
        (Inr None, c', b') \<Rightarrow> ([], None, c', b')
      | (Inl e, c', b') \<Rightarrow> ([], Some e, c', b')
      | (Inr (Some m), c1, b1) \<Rightarrow> (case decode_all parse c1 b1 of (ms, r) \<Rightarrow> (m # ms, r)))"
  by pat_completeness auto
termination
  by (relation "measure (\<lambda>(parse, c, b). undecoded c b)") (auto dest!: sym [of _ "decode _ _ _"] decode_shrinks)

declare decode_all.simps [simp del]

lemma decode_induct [case_names step]:
  assumes "\<And>c b. (\<And>m c1 b1. decode parse c b = (Inr (Some m), c1, b1) \<Longrightarrow> P c1 b1) \<Longrightarrow> P c b"
  shows "P c b"
proof (induction "undecoded c b" arbitrary: c b rule: less_induct)
  case less
  then show ?case
    using assms [of c b] decode_shrinks [of parse c b] by blast
qed

lemma decode_all_frames:
  "decode_all parse c b = (ms, None, c', b') \<longleftrightarrow> frames (decode parse) c b ms c' b'"
proof
  show "decode_all parse c b = (ms, None, c', b') \<Longrightarrow> frames (decode parse) c b ms c' b'"
  proof (induction c b arbitrary: ms rule: decode_induct [where parse = parse])
    case (step c b)
    then show ?case
      by (subst (asm) (2) decode_all.simps) (auto split: prod.splits sum.splits option.splits intro: frames.intros)
  qed
next
  show "frames (decode parse) c b ms c' b' \<Longrightarrow> decode_all parse c b = (ms, None, c', b')"
    by (induction rule: frames.induct) (simp_all add: decode_all.simps)
qed

lemma decode_all_length: "length (fst (decode_all parse c b)) \<le> undecoded c b"
proof (induction c b rule: decode_induct [where parse = parse])
  case (step c b)
  have "Suc (length (fst (decode_all parse c1 b1))) \<le> undecoded c b" if "decode parse c b = (Inr (Some m), c1, b1)" for m c1 b1
    using step [OF that] decode_shrinks [OF that] by simp
  then show ?case
    by (subst decode_all.simps) (fastforce split: prod.splits sum.splits option.splits)
qed

lemma decode_None_again:
  "decode parse c b = (Inr None, c', b') \<Longrightarrow> decode parse c' b' = (Inr None, c', b')"
  using decode_more [of parse c b c' b' "[]"] by simp

subsection \<open>Properties\<close>

text \<open>
  C6. Messages encoded one after the other and read back in chunks cut at arbitrary places are
  decoded to the same messages in the same order, with nothing left in the buffer.
\<close>

theorem encoded_stream_decodes:
  assumes "\<forall>m\<in>set ms. message_wf m \<and> json_text_faithful parse print m"
    and "concat xs = encode_all print ms []" and "xs \<noteq> []"
  shows "feeds (decode parse) codec_new [] xs (map message_canon ms) codec_new []"
  using lsp_stream.chunking [OF assms(3), of parse codec_new "[]"] frames_encode_all [OF assms(1)]
    assms(2) by simp

text \<open>A document and its text, for the witnesses.\<close>

definition exit_message :: message where
  "exit_message = Notification (notification_new ''exit'' None)"

definition exit_text :: bytes where
  "exit_text = ''{\"jsonrpc\":\"2.0\",\"method\":\"exit\"}''"

definition exit_parse :: "bytes \<Rightarrow> serde_error + json" where
  "exit_parse b = (if b = exit_text then Inr (message_serialize exit_message) else Inl (Syntax []))"

definition exit_print :: "json \<Rightarrow> serde_error + bytes" where
  "exit_print d = (if d = message_serialize exit_message then Inr exit_text else Inl (Syntax []))"

theorem encoded_stream_decodes_witness:
  "feeds (decode exit_parse) codec_new []
     [take 11 (encode_all exit_print [exit_message, exit_message] []),
      drop 11 (encode_all exit_print [exit_message, exit_message] [])]
     [exit_message, exit_message] codec_new []"
proof -
  have "json_text_faithful exit_parse exit_print exit_message"
    by (simp add: json_text_faithful_def exit_parse_def exit_print_def exit_text_def usize_max_def)
  moreover have "message_wf exit_message"
    by (simp add: exit_message_def notification_new_def opt_value_wf_def)
  ultimately have "feeds (decode exit_parse) codec_new []
     [take 11 (encode_all exit_print [exit_message, exit_message] []),
      drop 11 (encode_all exit_print [exit_message, exit_message] [])]
     (map message_canon [exit_message, exit_message]) codec_new []"
    by (intro encoded_stream_decodes [where print = exit_print]) auto
  then show ?thesis
    by (simp add: exit_message_def notification_new_def)
qed

text \<open>
  C21. The result of decoding never depends on bytes that arrive later: a decoded message or an
  error stays the same, and a decoder that asked for more bytes continues where it stopped.
\<close>

theorem decode_is_incremental:
  "decode parse c b = (r, c', b') \<Longrightarrow>
     decode parse c (b @ x) = (if r = Inr None then decode parse c' (b' @ x) else (r, c', b' @ x))"
  using decode_more decode_done by auto

theorem decode_is_incremental_witness:
  "decode exit_parse codec_new
     (((''Content-Length: '' @ show_nat 34 @ header_terminator) @ take 3 exit_text) @ drop 3 exit_text)
   = decode exit_parse \<lparr>content_length = Some 34\<rparr> (take 3 exit_text @ drop 3 exit_text)"
proof -
  have "decode exit_parse codec_new
      ((''Content-Length: '' @ show_nat 34 @ header_terminator) @ take 3 exit_text)
      = (Inr None, \<lparr>content_length = Some 34\<rparr>, take 3 exit_text)"
    by (subst decode_after_header) (simp_all add: usize_max_def decode_body_def exit_text_def)
  with decode_is_incremental [OF this, of "drop 3 exit_text"] show ?thesis
    by simp
qed

text \<open>
  C36. A header section that does not give a length is never consumed: the decoder reports the
  same error on every later call, whatever follows, so no later message is ever decoded.
\<close>

theorem bad_header_blocks_decoder:
  assumes "content_length c = None" and "find_subsequence b header_terminator = Some i"
    and "parse_content_length (take i b) = Inl e"
  shows "decode parse c (b @ x) = (Inl e, c, b @ x)"
  using assms by (rule decode_bad_header)

theorem bad_header_blocks_decoder_witness:
  "decode exit_parse codec_new ((''X: 1'' @ header_terminator) @ ''{}'')
   = (Inl (Io_error InvalidData (Io_text ''Missing Content-Length header'')), codec_new,
      (''X: 1'' @ header_terminator) @ ''{}'')"
proof (rule bad_header_blocks_decoder)
  show "content_length codec_new = None"
    by (simp add: codec_new_def)
  show "find_subsequence (''X: 1'' @ header_terminator) header_terminator = Some 4"
    using find_subsequence_first [of header_terminator "''X: 1''" "[]"] by simp
  show "parse_content_length (take 4 (''X: 1'' @ header_terminator))
      = Inl (Io_error InvalidData (Io_text ''Missing Content-Length header''))"
    by code_simp
qed

text \<open>
  C35. A body that is not a message is reported once and consumed: the decoder is back in its
  initial state with the buffer at the next frame.
\<close>

theorem bad_body_is_skipped:
  assumes "length body \<le> usize_max" and "message_from_slice parse body = Inl e"
  shows "decode parse codec_new
      ((''Content-Length: '' @ show_nat (length body) @ header_terminator) @ body @ rest)
    = (Inl (Io_error InvalidData (Io_json e)), codec_new, rest)"
  using decode_frame [OF assms(1), of parse rest] assms(2) by simp

theorem bad_body_is_skipped_witness:
  "decode exit_parse codec_new
      ((''Content-Length: '' @ show_nat (length ''{}'') @ header_terminator) @ ''{}'' @ ''rest'')
    = (Inl (Io_error InvalidData (Io_json (Syntax []))), codec_new, ''rest'')"
  by (rule bad_body_is_skipped)
    (simp_all add: usize_max_def message_from_slice_def exit_parse_def exit_text_def)

text \<open>
  C17. Decoding a buffer terminates, whatever bytes it holds: a decoder that is called again and
  again stops, after at most one message per byte and one more, either at an error or where it has
  to wait; there it would wait for ever without new bytes, and the messages are exactly those that
  a reader of the stream gets.
\<close>

theorem decoding_terminates:
  "wf {((c1, b1), (c, b)). \<exists>m. decode parse c b = (Inr (Some m), c1, b1)}
   \<and> (case decode_all parse c b of (ms, e, c', b') \<Rightarrow>
        length ms \<le> length b + 1
        \<and> (e = None \<longleftrightarrow> frames (decode parse) c b ms c' b')
        \<and> (e = None \<longrightarrow> decode parse c' b' = (Inr None, c', b')))"
proof (intro conjI)
  show "wf {((c1, b1), (c, b)). \<exists>m. decode parse c b = (Inr (Some m), c1, b1)}"
    by (rule wf_subset [OF wf_measure [of "\<lambda>(c, b). undecoded c b"]]) (auto dest: decode_shrinks)
next
  obtain ms e c' b' where d: "decode_all parse c b = (ms, e, c', b')"
    by (metis prod_cases4)
  have len: "length ms \<le> length b + 1"
    using decode_all_length [of parse c b] d by (simp add: undecoded_def split: if_splits)
  have iff: "e = None \<longleftrightarrow> frames (decode parse) c b ms c' b'"
    using d decode_all_frames [of parse c b ms c' b'] by auto
  have "frames (decode parse) c b ms c' b' \<Longrightarrow> decode parse c' b' = (Inr None, c', b')"
    by (induction rule: frames.induct) (auto dest: decode_None_again)
  then show "case decode_all parse c b of (ms, e, c', b') \<Rightarrow> length ms \<le> length b + 1
      \<and> (e = None \<longleftrightarrow> frames (decode parse) c b ms c' b') \<and> (e = None \<longrightarrow> decode parse c' b' = (Inr None, c', b'))"
    using d len iff by simp
qed

theorem decoding_terminates_witness:
  "length (fst (decode_all exit_parse codec_new ''Content-Length: 2'')) \<le> 18"
  using decoding_terminates [where parse = exit_parse and c = codec_new and b = "''Content-Length: 2''"] by (auto split: prod.splits)

text \<open>
  C18. The type of decoded messages: whatever bytes arrive and whatever document they hold, a
  message that the decoder gives has only values with sorted objects, no \<open>Some(Null)\<close>, and is
  therefore its own canonical form, so that passing it on by \<open>encode\<close> and decoding it again gives
  the same message.
\<close>

theorem decoded_message_wellformed:
  assumes "decode parse c b = (Inr (Some m), c', b')"
  shows "message_wf m \<and> message_canon m = m
    \<and> (\<forall>parse' print. json_text_faithful parse' print m \<longrightarrow>
         decode parse' codec_new (encode_all print [m] []) = (Inr (Some m), codec_new, []))"
proof -
  have "\<exists>d. message_deserialize d = Inr m"
    using assms by (auto simp: decode_def decode_body_def message_from_slice_def res_bind_Inr_iff
        split: option.splits if_splits sum.splits)
  then have m: "message_wf m" "message_canon m = m"
    using message_deserialize_canonical by blast+
  have "decode parse' codec_new (encode_all print [m] []) = (Inr (Some m), codec_new, [])"
    if faithful: "json_text_faithful parse' print m" for parse' print
  proof -
    obtain body where body: "length body \<le> usize_max" "message_from_slice parse' body = Inr m"
      "\<And>dst. encode print codec_new m dst =
        (Inr (), codec_new, dst @ (''Content-Length: '' @ show_nat (length body) @ header_terminator) @ body)"
      by (rule encode_frame [OF faithful m(1), where c = codec_new, unfolded m(2)]) blast
    show ?thesis
      using decode_frame [OF body(1), of parse' "[]"] body(2) by (simp add: body(3))
  qed
  with m show ?thesis
    by blast
qed

theorem decoded_message_wellformed_witness:
  "message_wf exit_message"
proof -
  have "message_from_slice exit_parse exit_text = Inr exit_message"
    by code_simp
  then have "decode exit_parse codec_new
      ((''Content-Length: '' @ show_nat (length exit_text) @ header_terminator) @ exit_text @ [])
      = (Inr (Some exit_message), codec_new, [])"
    by (subst decode_frame) (simp_all add: exit_text_def usize_max_def)
  from decoded_message_wellformed [OF this] show ?thesis
    by blast
qed

end
