(* ===== verification/Lifecycle.thy ===== *)
theory Lifecycle
  imports Lsp_Codec
begin

text \<open>
  \<open>src/src/lifecycle.rs\<close>: the lifecycle states of a connection, the tables of allowed requests
  and notifications, the exit codes and the protocol errors.
\<close>

datatype lifecycle_state = Uninitialized | Initializing | Running | ShuttingDown | Exited

definition lifecycle_default :: lifecycle_state where
  "lifecycle_default = Uninitialized"

fun is_request_allowed :: "lifecycle_state \<Rightarrow> string \<Rightarrow> bool" where
  "is_request_allowed Uninitialized m = (m = ''initialize'')"
| "is_request_allowed Initializing m = False"
| "is_request_allowed ShuttingDown m = False"
| "is_request_allowed Exited m = False"
| "is_request_allowed Running m = (m \<noteq> ''initialize'')"

fun is_notification_allowed :: "lifecycle_state \<Rightarrow> string \<Rightarrow> bool" where
  "is_notification_allowed Uninitialized m = (m = ''exit'')"
| "is_notification_allowed ShuttingDown m = (m = ''exit'')"
| "is_notification_allowed Initializing m = (m = ''initialized'')"
| "is_notification_allowed Running m = True"
| "is_notification_allowed Exited m = False"

datatype exit_code = ExitSuccess | ExitError

fun exit_code_to_i32 :: "exit_code \<Rightarrow> i32" where
  "exit_code_to_i32 ExitSuccess = 0"
| "exit_code_to_i32 ExitError = 1"

datatype protocol_error =
    ExpectedInitialize string
  | ExpectedInitialized string
  | Disconnected
  | AfterShutdown string
  | InitializeTimeout
  | RequestTimeout
  | Io io_error

text \<open>The derived \<open>Display\<close>; the text of an I/O error is that of the standard library.\<close>

fun protocol_error_display :: "(io_error \<Rightarrow> string) \<Rightarrow> protocol_error \<Rightarrow> string" where
  "protocol_error_display show_io (ExpectedInitialize m) = ''expected initialize request, got: '' @ m"
| "protocol_error_display show_io (ExpectedInitialized m) = ''expected initialized notification, got: '' @ m"
| "protocol_error_display show_io Disconnected = ''connection disconnected unexpectedly''"
| "protocol_error_display show_io (AfterShutdown m) = ''received request after shutdown: '' @ m"
| "protocol_error_display show_io InitializeTimeout = ''timed out waiting for initialized notification (60s)''"
| "protocol_error_display show_io RequestTimeout = ''timed out waiting for response to server request''"
| "protocol_error_display show_io (Io e) = ''I/O error: '' @ show_io e"

end
