(* ===== verification/Client_Sender.thy ===== *)
theory Client_Sender
  imports Routing Lifecycle
begin

text \<open>
  \<open>src/src/client_sender.rs\<close>: the response map shared by the handles of a connection, the guard
  that cleans up an abandoned request, and the client sender.

  What the source shares through \<open>Arc\<close> lives in the world: the response maps
  (\<open>Arc<Mutex<HashMap<..>>>\<close>) and the id counters (\<open>Arc<AtomicI64>\<close>) are addressed by references,
  and a clone of a handle is the same reference. The outbound channel of the connection is the
  field \<open>outbound\<close>. A call of an asynchronous function runs up to its first suspension and leaves
  a future; polling the future continues it.
\<close>

type_synonym ref = nat

record ('tw, 'ow, 'mw) world =
  tokens :: 'tw
  oneshots :: 'ow
  outbound :: 'mw
  response_maps :: "ref \<Rightarrow> request_id \<rightharpoonup> oneshot"
  id_counters :: "ref \<Rightarrow> int"
  next_ref :: ref

subsection \<open>The response map\<close>

definition response_map_new :: "('tw, 'ow, 'mw) world \<Rightarrow> ref \<times> ('tw, 'ow, 'mw) world" where
  "response_map_new w =
     (next_ref w, w\<lparr>response_maps := (response_maps w)(next_ref w := Map.empty), next_ref := Suc (next_ref w)\<rparr>)"

definition response_map_register ::
  "('tw, 'ow, 'mw) tokio \<Rightarrow> ref \<Rightarrow> request_id \<Rightarrow> ('tw, 'ow, 'mw) world
     \<Rightarrow> oneshot \<times> ('tw, 'ow, 'mw) world" where
  "response_map_register tk m i w =
     (let (h, ow) = oneshot_channel tk (oneshots w);
          ow' = (case response_maps w m i of Some old \<Rightarrow> oneshot_drop tk old ow | None \<Rightarrow> ow)
      in (h, w\<lparr>oneshots := ow',
               response_maps := (response_maps w)(m := (response_maps w m)(i \<mapsto> h))\<rparr>))"

definition response_map_try_register ::
  "('tw, 'ow, 'mw) tokio \<Rightarrow> ref \<Rightarrow> request_id \<Rightarrow> ('tw, 'ow, 'mw) world
     \<Rightarrow> oneshot option \<times> ('tw, 'ow, 'mw) world" where
  "response_map_try_register tk m i w =
     (let (h, ow) = oneshot_channel tk (oneshots w)
      in if response_maps w m i \<noteq> None then (None, w\<lparr>oneshots := oneshot_drop tk h ow\<rparr>)
         else (Some h, w\<lparr>oneshots := ow,
                 response_maps := (response_maps w)(m := (response_maps w m)(i \<mapsto> h))\<rparr>))"

definition response_map_contains :: "ref \<Rightarrow> request_id \<Rightarrow> ('tw, 'ow, 'mw) world \<Rightarrow> bool" where
  "response_map_contains m i w = (response_maps w m i \<noteq> None)"

definition response_map_deliver ::
  "('tw, 'ow, 'mw) tokio \<Rightarrow> ref \<Rightarrow> request_id \<Rightarrow> response \<Rightarrow> ('tw, 'ow, 'mw) world
     \<Rightarrow> bool \<times> ('tw, 'ow, 'mw) world" where
  "response_map_deliver tk m i r w =
     (case response_maps w m i of
        Some h \<Rightarrow>
          (True, w\<lparr>oneshots := oneshot_send tk h r (oneshots w),
                   response_maps := (response_maps w)(m := (response_maps w m)(i := None))\<rparr>)
      | None \<Rightarrow> (False, w))"

definition response_map_cancel ::
  "('tw, 'ow, 'mw) tokio \<Rightarrow> ref \<Rightarrow> request_id \<Rightarrow> ('tw, 'ow, 'mw) world
     \<Rightarrow> bool \<times> ('tw, 'ow, 'mw) world" where
  "response_map_cancel tk m i w =
     (case response_maps w m i of
        Some h \<Rightarrow>
          (True, w\<lparr>oneshots := oneshot_drop tk h (oneshots w),
                   response_maps := (response_maps w)(m := (response_maps w m)(i := None))\<rparr>)
      | None \<Rightarrow> (False, w))"

subsection \<open>The clean-up guard\<close>

record pending_response_guard =
  guard_map :: ref
  guard_id :: "request_id option"

definition guard_new :: "ref \<Rightarrow> request_id \<Rightarrow> pending_response_guard" where
  "guard_new m i = \<lparr>guard_map = m, guard_id = Some i\<rparr>"

definition guard_disarm :: "pending_response_guard \<Rightarrow> pending_response_guard" where
  "guard_disarm g = g\<lparr>guard_id := None\<rparr>"

definition guard_drop ::
  "('tw, 'ow, 'mw) tokio \<Rightarrow> pending_response_guard \<Rightarrow> ('tw, 'ow, 'mw) world \<Rightarrow> ('tw, 'ow, 'mw) world" where
  "guard_drop tk g w =
     (case guard_id g of
        Some i \<Rightarrow> snd (response_map_cancel tk (guard_map g) i w)
      | None \<Rightarrow> w)"

subsection \<open>The client sender\<close>

datatype send_error = SendError

definition send_error_display :: "send_error \<Rightarrow> string" where
  "send_error_display e = ''connection closed''"

record client_sender =
  cs_response_map :: ref
  cs_id_counter :: ref
  cs_drain_alive :: token

definition client_sender_new ::
  "ref \<Rightarrow> token \<Rightarrow> ('tw, 'ow, 'mw) world \<Rightarrow> client_sender \<times> ('tw, 'ow, 'mw) world" where
  "client_sender_new m alive w =
     (\<lparr>cs_response_map = m, cs_id_counter = next_ref w, cs_drain_alive = alive\<rparr>,
      w\<lparr>id_counters := (id_counters w)(next_ref w := 1), next_ref := Suc (next_ref w)\<rparr>)"

definition outbound_send ::
  "('tw, 'ow, 'mw) tokio \<Rightarrow> message \<Rightarrow> ('tw, 'ow, 'mw) world \<Rightarrow> bool \<times> ('tw, 'ow, 'mw) world" where
  "outbound_send tk m w =
     (let (ok, mw) = mpsc_send tk m (outbound w) in (ok, w\<lparr>outbound := mw\<rparr>))"

definition notify ::
  "('tw, 'ow, 'mw) tokio \<Rightarrow> client_sender \<Rightarrow> string \<Rightarrow> json option \<Rightarrow> ('tw, 'ow, 'mw) world
     \<Rightarrow> (send_error + unit) \<times> ('tw, 'ow, 'mw) world" where
  "notify tk s method params w =
     (let (ok, w') = outbound_send tk (Notification (notification_new method params)) w
      in (if ok then Inr () else Inl SendError, w'))"

definition respond ::
  "('tw, 'ow, 'mw) tokio \<Rightarrow> client_sender \<Rightarrow> response \<Rightarrow> ('tw, 'ow, 'mw) world
     \<Rightarrow> (send_error + unit) \<times> ('tw, 'ow, 'mw) world" where
  "respond tk s r w =
     (let (ok, w') = outbound_send tk (Response r) w
      in (if ok then Inr () else Inl SendError, w'))"

text \<open>The next id; \<open>None\<close> is the panic on an id outside \<open>i32\<close>.\<close>

definition next_id ::
  "client_sender \<Rightarrow> ('tw, 'ow, 'mw) world \<Rightarrow> request_id option \<times> ('tw, 'ow, 'mw) world" where
  "next_id s w =
     (let current = id_counters w (cs_id_counter s);
          new = (if i32_max \<le> current then 1 else current + 1)
      in (map_option IntegerId (i32_try_from current),
          w\<lparr>id_counters := (id_counters w)(cs_id_counter s := new)\<rparr>))"

definition max_retries :: nat where
  "max_retries = 1000"

definition slot_error :: io_error where
  "slot_error = Io_error OtherKind (Io_text ''failed to reserve a request slot after 1000 attempts'')"

text \<open>The \<open>for\<close> loop with \<open>n\<close> iterations left; \<open>None\<close> is a panic.\<close>

fun reserve_loop ::
  "('tw, 'ow, 'mw) tokio \<Rightarrow> client_sender \<Rightarrow> nat \<Rightarrow> ('tw, 'ow, 'mw) world
     \<Rightarrow> (io_error + request_id \<times> oneshot) option \<times> ('tw, 'ow, 'mw) world" where
  "reserve_loop tk s 0 w = (Some (Inl slot_error), w)"
| "reserve_loop tk s (Suc n) w =
     (case next_id s w of
        (None, w1) \<Rightarrow> (None, w1)
      | (Some i, w1) \<Rightarrow>
          (case response_map_try_register tk (cs_response_map s) i w1 of
             (Some h, w2) \<Rightarrow> (Some (Inr (i, h)), w2)
           | (None, w2) \<Rightarrow> reserve_loop tk s n w2))"

definition reserve_request_slot ::
  "('tw, 'ow, 'mw) tokio \<Rightarrow> client_sender \<Rightarrow> ('tw, 'ow, 'mw) world
     \<Rightarrow> (io_error + request_id \<times> oneshot) option \<times> ('tw, 'ow, 'mw) world" where
  "reserve_request_slot tk s w = reserve_loop tk s max_retries w"

subsection \<open>Requests as futures\<close>

text \<open>
  A request future suspended in the \<open>select!\<close> of \<open>send_registered_request\<close>: the receiver it
  awaits, the guard, and the token of the drain task.
\<close>

record request_future =
  fut_rx :: oneshot
  fut_guard :: pending_response_guard
  fut_alive :: token

datatype started = Finished "protocol_error + response" | Awaiting request_future

definition send_registered_request ::
  "('tw, 'ow, 'mw) tokio \<Rightarrow> client_sender \<Rightarrow> request_id \<Rightarrow> string \<Rightarrow> json option \<Rightarrow> oneshot
     \<Rightarrow> ('tw, 'ow, 'mw) world \<Rightarrow> started \<times> ('tw, 'ow, 'mw) world" where
  "send_registered_request tk s i method params rx w =
     (let cleanup = guard_new (cs_response_map s) i;
          (ok, w1) = outbound_send tk (Request (request_new i method params)) w
      in if \<not> ok then (Finished (Inl Disconnected), guard_drop tk cleanup w1)
         else (Awaiting \<lparr>fut_rx = rx, fut_guard = cleanup, fut_alive = cs_drain_alive s\<rparr>, w1))"

text \<open>
  One poll of the future. \<open>tokio::select!\<close> polls its branches in a random order: \<open>rx_first\<close> says
  which one goes first.
\<close>

definition poll_rx ::
  "('tw, 'ow, 'mw) tokio \<Rightarrow> request_future \<Rightarrow> ('tw, 'ow, 'mw) world
     \<Rightarrow> ((protocol_error + response) \<times> ('tw, 'ow, 'mw) world) poll" where
  "poll_rx tk f w =
     (case oneshot_poll tk (fut_rx f) (oneshots w) of
        Rx_waiting \<Rightarrow> Pending
      | Rx_value r \<Rightarrow> Ready (Inr r, guard_drop tk (guard_disarm (fut_guard f)) w)
      | Rx_closed \<Rightarrow> Ready (Inl Disconnected, guard_drop tk (fut_guard f) w))"

definition poll_alive ::
  "('tw, 'ow, 'mw) tokio \<Rightarrow> request_future \<Rightarrow> ('tw, 'ow, 'mw) world
     \<Rightarrow> ((protocol_error + response) \<times> ('tw, 'ow, 'mw) world) poll" where
  "poll_alive tk f w =
     (if is_cancelled tk (fut_alive f) (tokens w) then Ready (Inl Disconnected, guard_drop tk (fut_guard f) w)
      else Pending)"

definition poll_request ::
  "('tw, 'ow, 'mw) tokio \<Rightarrow> bool \<Rightarrow> request_future \<Rightarrow> ('tw, 'ow, 'mw) world
     \<Rightarrow> ((protocol_error + response) \<times> ('tw, 'ow, 'mw) world) poll" where
  "poll_request tk rx_first f w =
     (let a = poll_rx tk f w; b = poll_alive tk f w
      in if rx_first then (case a of Ready _ \<Rightarrow> a | Pending \<Rightarrow> b)
         else (case b of Ready _ \<Rightarrow> b | Pending \<Rightarrow> a))"

text \<open>Dropping a suspended future drops its guard.\<close>

definition drop_request ::
  "('tw, 'ow, 'mw) tokio \<Rightarrow> request_future \<Rightarrow> ('tw, 'ow, 'mw) world \<Rightarrow> ('tw, 'ow, 'mw) world" where
  "drop_request tk f w = guard_drop tk (fut_guard f) w"

text \<open>\<open>request\<close> up to its suspension; \<open>None\<close> is the panic of \<open>next_id\<close>.\<close>

definition request ::
  "('tw, 'ow, 'mw) tokio \<Rightarrow> client_sender \<Rightarrow> string \<Rightarrow> json option \<Rightarrow> ('tw, 'ow, 'mw) world
     \<Rightarrow> started option \<times> ('tw, 'ow, 'mw) world" where
  "request tk s method params w =
     (case reserve_request_slot tk s w of
        (None, w1) \<Rightarrow> (None, w1)
      | (Some (Inl e), w1) \<Rightarrow> (Some (Finished (Inl (Io e))), w1)
      | (Some (Inr (i, rx)), w1) \<Rightarrow>
          (let (r, w2) = send_registered_request tk s i method params rx w1 in (Some r, w2)))"

text \<open>
  A poll of \<open>request_timeout\<close>: the inner future is polled first, and when it is pending and the
  time has elapsed it is dropped.
\<close>

definition poll_request_timeout ::
  "('tw, 'ow, 'mw) tokio \<Rightarrow> bool \<Rightarrow> bool \<Rightarrow> request_future \<Rightarrow> ('tw, 'ow, 'mw) world
     \<Rightarrow> ((protocol_error + response) \<times> ('tw, 'ow, 'mw) world) poll" where
  "poll_request_timeout tk rx_first elapsed f w =
     (case poll_request tk rx_first f w of
        Ready r \<Rightarrow> Ready r
      | Pending \<Rightarrow> if elapsed then Ready (Inl RequestTimeout, drop_request tk f w) else Pending)"

text \<open>\<open>send_request_with_id\<close>, the variant of the tests with an id chosen by the caller.\<close>

definition send_request_with_id ::
  "('tw, 'ow, 'mw) tokio \<Rightarrow> client_sender \<Rightarrow> request_id \<Rightarrow> string \<Rightarrow> json option
     \<Rightarrow> ('tw, 'ow, 'mw) world \<Rightarrow> started \<times> ('tw, 'ow, 'mw) world" where
  "send_request_with_id tk s i method params w =
     (let (rx, w1) = response_map_register tk (cs_response_map s) i w
      in send_registered_request tk s i method params rx w1)"

subsection \<open>Request ids\<close>

text \<open>The value of a counter at \<open>c\<close> after \<open>k\<close> calls of \<open>next_id\<close>, and the id the next call makes.\<close>

definition id_at :: "int \<Rightarrow> nat \<Rightarrow> int" where
  "id_at c k = 1 + (c - 1 + int k) mod i32_max"

definition request_id_at :: "int \<Rightarrow> nat \<Rightarrow> request_id" where
  "request_id_at c k = IntegerId (word_of_int (id_at c k))"

definition counter_ok :: "client_sender \<Rightarrow> ('tw, 'ow, 'mw) world \<Rightarrow> bool" where
  "counter_ok s w \<longleftrightarrow> 1 \<le> id_counters w (cs_id_counter s) \<and> id_counters w (cs_id_counter s) \<le> i32_max"

text \<open>The ids of \<open>n\<close> successive calls.\<close>

fun next_ids :: "client_sender \<Rightarrow> nat \<Rightarrow> ('tw, 'ow, 'mw) world \<Rightarrow> request_id option list" where
  "next_ids s 0 w = []"
| "next_ids s (Suc n) w = (case next_id s w of (i, w') \<Rightarrow> i # next_ids s n w')"

lemma i32_max_pos: "0 < i32_max"
  by (simp add: i32_max_def)

lemma id_at_0: "1 \<le> c \<Longrightarrow> c \<le> i32_max \<Longrightarrow> id_at c 0 = c"
  by (simp add: id_at_def)

lemma id_at_bounds: "1 \<le> id_at c k" "id_at c k \<le> i32_max"
  using pos_mod_sign [OF i32_max_pos, of "c - 1 + int k"] pos_mod_bound [OF i32_max_pos, of "c - 1 + int k"]
  unfolding id_at_def by linarith+

lemma id_at_step:
  assumes "1 \<le> c" "c \<le> i32_max"
  shows "id_at (if i32_max \<le> c then 1 else c + 1) k = id_at c (Suc k)"
proof (cases "i32_max \<le> c")
  case True
  then have "c - 1 + int (Suc k) = int k + i32_max"
    using assms by simp
  with True show ?thesis
    by (simp add: id_at_def)
qed (simp add: id_at_def algebra_simps)

lemma i32_word_inj:
  assumes "1 \<le> a" "a \<le> i32_max" "1 \<le> b" "b \<le> i32_max" "(word_of_int a :: i32) = word_of_int b"
  shows "a = b"
proof -
  have "i32_try_from a = Some (word_of_int a)" "i32_try_from b = Some (word_of_int b)"
    using assms by (simp_all add: i32_try_from_def i32_min_def)
  then show ?thesis
    using assms(5) by (simp add: i32_try_from_Some_iff)
qed

lemma request_id_at_inj:
  assumes "n \<le> nat i32_max"
  shows "inj_on (request_id_at c) {..<n}"
proof (rule inj_onI)
  fix j k assume jk: "j \<in> {..<n}" "k \<in> {..<n}" "request_id_at c j = request_id_at c k"
  then have "id_at c j = id_at c k"
    using i32_word_inj [OF id_at_bounds id_at_bounds] by (simp add: request_id_at_def)
  then have "(c - 1 + int j) mod i32_max = (c - 1 + int k) mod i32_max"
    by (simp add: id_at_def)
  then have "(int j - int k) mod i32_max = 0"
    by (simp add: mod_eq_dvd_iff)
  moreover have "\<bar>int j - int k\<bar> < i32_max"
    using jk assms by auto
  ultimately show "j = k"
    using zdvd_not_zless [of "\<bar>int j - int k\<bar>" i32_max] by (cases "int j - int k = 0") auto
qed

lemma next_id_ok:
  assumes "counter_ok s w" and "next_id s w = (r, w')"
  shows "r = Some (request_id_at (id_counters w (cs_id_counter s)) 0) \<and> counter_ok s w'
    \<and> request_id_at (id_counters w' (cs_id_counter s)) k
        = request_id_at (id_counters w (cs_id_counter s)) (Suc k)
    \<and> response_maps w' = response_maps w \<and> oneshots w' = oneshots w \<and> tokens w' = tokens w
    \<and> outbound w' = outbound w"
  using assms i32_max_pos
    id_at_step [of "id_counters w (cs_id_counter s)" k]
  by (auto simp: counter_ok_def next_id_def Let_def request_id_at_def id_at_0 i32_try_from_def i32_min_def)

lemma next_ids_eq:
  assumes "counter_ok s w"
  shows "next_ids s n w = map (\<lambda>k. Some (request_id_at (id_counters w (cs_id_counter s)) k)) [0..<n]"
  using assms
proof (induction n arbitrary: w)
  case (Suc n)
  obtain r w' where n: "next_id s w = (r, w')"
    by fastforce
  have "next_ids s n w' = map (\<lambda>k. Some (request_id_at (id_counters w (cs_id_counter s)) (Suc k))) [0..<n]"
    using Suc.IH next_id_ok [OF Suc.prems n] by simp
  then show ?case
    using next_id_ok [OF Suc.prems n] n
    by (simp add: upt_conv_Cons map_Suc_upt [symmetric] comp_def del: upt_Suc map_Suc_upt)
qed simp

subsection \<open>Reserving a slot\<close>

abbreviation candidate :: "client_sender \<Rightarrow> ('tw, 'ow, 'mw) world \<Rightarrow> nat \<Rightarrow> request_id" where
  "candidate s w k \<equiv> request_id_at (id_counters w (cs_id_counter s)) k"

text \<open>The outcome of the loop: the first free candidate, or the error when none is free.\<close>

definition reserved ::
  "client_sender \<Rightarrow> nat \<Rightarrow> ('tw, 'ow, 'mw) world \<Rightarrow> (io_error + request_id \<times> oneshot) option
     \<Rightarrow> ('tw, 'ow, 'mw) world \<Rightarrow> bool" where
  "reserved s n w r w' \<longleftrightarrow>
     (let m = cs_response_map s in
      (r = Some (Inl slot_error) \<and> (\<forall>k<n. response_map_contains m (candidate s w k) w)
         \<and> response_maps w' = response_maps w)
      \<or> (\<exists>k<n. \<exists>h. r = Some (Inr (candidate s w k, h)) \<and> \<not> response_map_contains m (candidate s w k) w
         \<and> (\<forall>j<k. response_map_contains m (candidate s w j) w)
         \<and> response_maps w' = (response_maps w)(m := (response_maps w m)(candidate s w k \<mapsto> h))))"

lemma try_register_cases:
  assumes "response_map_try_register tk m i w = (r, w')"
  obtains h ow where "response_maps w m i = None" "oneshot_channel tk (oneshots w) = (h, ow)" "r = Some h"
    "w' = w\<lparr>oneshots := ow, response_maps := (response_maps w)(m := (response_maps w m)(i \<mapsto> h))\<rparr>"
  | h ow where "response_maps w m i \<noteq> None" "oneshot_channel tk (oneshots w) = (h, ow)" "r = None"
    "w' = w\<lparr>oneshots := oneshot_drop tk h ow\<rparr>"
proof -
  obtain h ow where c: "oneshot_channel tk (oneshots w) = (h, ow)"
    by fastforce
  show thesis
  proof (cases "response_maps w m i")
    case None
    then show thesis
      using assms c by (intro that(1) [OF None c]) (auto simp: response_map_try_register_def)
  next
    case (Some g)
    then show thesis
      using assms c by (intro that(2) [OF _ c]) (simp_all add: response_map_try_register_def)
  qed
qed

lemma all_less_Suc_shift: "(\<forall>j<Suc k. P j) \<longleftrightarrow> P 0 \<and> (\<forall>j<k. P (Suc j))"
  using less_Suc_eq_0_disj by auto

lemma ex_less_Suc_shift: "(\<exists>j<Suc k. P j) \<longleftrightarrow> P 0 \<or> (\<exists>j<k. P (Suc j))"
  using less_Suc_eq_0_disj by auto

lemma reserve_loop_frame:
  assumes "counter_ok s w" and "reserve_loop tk s n w = (r, w')"
  shows "counter_ok s w' \<and> tokens w' = tokens w \<and> outbound w' = outbound w"
  using assms
proof (induction n arbitrary: w)
  case (Suc n)
  obtain i w1 where n: "next_id s w = (Some i, w1)"
    using next_id_ok [OF Suc.prems(1)] by (metis surj_pair)
  note ok = next_id_ok [OF Suc.prems(1) n]
  obtain r2 w2 where t: "response_map_try_register tk (cs_response_map s) i w1 = (r2, w2)"
    by fastforce
  have w2: "counter_ok s w2" "tokens w2 = tokens w" "outbound w2 = outbound w"
    using t ok by (auto elim!: try_register_cases simp: counter_ok_def)
  show ?case
    using Suc.IH [OF w2(1)] Suc.prems(2) n t w2 by (auto split: option.splits)
qed simp

lemma reserve_loop_spec:
  assumes "counter_ok s w" and "reserve_loop tk s n w = (r, w')"
  shows "reserved s n w r w'"
  using assms
proof (induction n arbitrary: w)
  case 0
  then show ?case
    by (simp add: reserved_def)
next
  case (Suc n)
  let ?m = "cs_response_map s"
  obtain i w1 where n: "next_id s w = (Some i, w1)"
    using next_id_ok [OF Suc.prems(1)] by (metis surj_pair)
  note ok = next_id_ok [OF Suc.prems(1) n]
  obtain r2 w2 where t: "response_map_try_register tk ?m i w1 = (r2, w2)"
    by fastforce
  from t show ?case
  proof (cases rule: try_register_cases)
    case (1 h ow)
    then show ?thesis
      using Suc.prems(2) n t ok
      by (auto simp: reserved_def response_map_contains_def Let_def)
  next
    case (2 h ow)
    have keep: "counter_ok s w2" "\<And>k. candidate s w2 k = candidate s w (Suc k)"
      "response_maps w2 = response_maps w"
      using 2 ok next_id_ok [OF Suc.prems(1) n] by (auto simp: counter_ok_def)
    have "reserved s n w2 r w'"
      using Suc.IH [OF keep(1)] Suc.prems(2) n t 2 by simp
    then show ?thesis
      using 2 ok unfolding reserved_def response_map_contains_def Let_def keep ex_less_Suc_shift
        all_less_Suc_shift by auto
  qed
qed

lemma free_candidate:
  assumes "finite (dom m)" and "card (dom m) < n" and "n \<le> nat i32_max"
  shows "\<exists>k<n. m (request_id_at c k) = None"
proof (rule ccontr)
  assume "\<not> ?thesis"
  then have "request_id_at c ` {..<n} \<subseteq> dom m"
    by (auto simp: dom_def)
  then have "card (request_id_at c ` {..<n}) \<le> card (dom m)"
    using assms(1) by (rule card_mono [rotated])
  then show False
    using assms(2) card_image [OF request_id_at_inj [OF assms(3)], of c] by simp
qed

subsection \<open>Concurrent use of one response map\<close>

text \<open>
  The atomic steps that tasks holding handles to one response map take: the atomic counter
  update, one locked access to the map, one send. An interleaving of tasks is a list of them.
\<close>

datatype client_op =
    OpNextId client_sender
  | OpTryRegister request_id
  | OpDeliver request_id response
  | OpDropId request_id
  | OpSend message

fun client_step ::
  "('tw, 'ow, 'mw) tokio \<Rightarrow> ref \<Rightarrow> client_op \<Rightarrow> ('tw, 'ow, 'mw) world \<Rightarrow> ('tw, 'ow, 'mw) world" where
  "client_step tk m (OpNextId s) w = snd (next_id s w)"
| "client_step tk m (OpTryRegister i) w = snd (response_map_try_register tk m i w)"
| "client_step tk m (OpDeliver i r) w = snd (response_map_deliver tk m i r w)"
| "client_step tk m (OpDropId i) w = snd (response_map_cancel tk m i w)"
| "client_step tk m (OpSend x) w = snd (outbound_send tk x w)"

fun removes :: "client_op \<Rightarrow> request_id option" where
  "removes (OpDeliver i r) = Some i"
| "removes (OpDropId i) = Some i"
| "removes _ = None"

fun client_run ::
  "('tw, 'ow, 'mw) tokio \<Rightarrow> ref \<Rightarrow> client_op list \<Rightarrow> ('tw, 'ow, 'mw) world \<Rightarrow> ('tw, 'ow, 'mw) world" where
  "client_run tk m [] w = w"
| "client_run tk m (x # xs) w = client_run tk m xs (client_step tk m x w)"

lemma next_id_world:
  "next_id s w = (r, w') \<Longrightarrow>
     response_maps w' = response_maps w \<and> oneshots w' = oneshots w \<and> tokens w' = tokens w \<and> outbound w' = outbound w"
  by (auto simp: next_id_def Let_def)

lemma outbound_send_world:
  "outbound_send tk x w = (ok, w') \<Longrightarrow>
     response_maps w' = response_maps w \<and> oneshots w' = oneshots w \<and> tokens w' = tokens w
     \<and> id_counters w' = id_counters w"
  by (auto simp: outbound_send_def split: prod.splits)

lemma deliver_frame:
  "response_map_deliver tk m i r w = (ok, w') \<Longrightarrow>
     tokens w' = tokens w \<and> outbound w' = outbound w \<and> id_counters w' = id_counters w
     \<and> ok = (response_maps w m i \<noteq> None) \<and> response_maps w' = (response_maps w)(m := (response_maps w m)(i := None))"
  by (auto simp: response_map_deliver_def fun_eq_iff split: option.splits)

lemma cancel_frame:
  "response_map_cancel tk m i w = (ok, w') \<Longrightarrow>
     tokens w' = tokens w \<and> outbound w' = outbound w \<and> id_counters w' = id_counters w
     \<and> ok = (response_maps w m i \<noteq> None) \<and> response_maps w' = (response_maps w)(m := (response_maps w m)(i := None))"
  by (auto simp: response_map_cancel_def fun_eq_iff split: option.splits)

context oneshot_channels
begin

abbreviation map_ok :: "ref \<Rightarrow> ('tw, 'ow, 'mw) world \<Rightarrow> bool" where
  "map_ok m w \<equiv> senders_ok tk opened (response_maps w m) (oneshots w)"

lemma try_register_effect:
  assumes "map_ok m w" and "response_map_try_register tk m i w = (r, w')"
  shows "map_ok m w' \<and> opened (oneshots w) \<subseteq> opened (oneshots w')
    \<and> (\<forall>j. j \<in> dom (response_maps w m) \<longrightarrow> response_maps w' m j = response_maps w m j)
    \<and> (\<forall>g\<in>opened (oneshots w). oneshot_poll tk g (oneshots w') = oneshot_poll tk g (oneshots w))"
  using assms(2)
proof (cases rule: try_register_cases)
  case (1 h ow)
  have "opened ow = insert h (opened (oneshots w))"
    using new_channel [OF 1(2)] by blast
  with file_sender [OF assms(1) 1(2) refl, of i] 1 show ?thesis
    by (auto simp: dom_def)
next
  case (2 h ow)
  have new: "h \<notin> opened (oneshots w)" "opened ow = insert h (opened (oneshots w))"
    "\<And>g. g \<in> opened (oneshots w) \<Longrightarrow> oneshot_poll tk g ow = oneshot_poll tk g (oneshots w)"
    using new_channel [OF 2(2)] by auto
  then have poll: "oneshot_poll tk g (oneshot_drop tk h ow) = oneshot_poll tk g (oneshots w)"
    if "g \<in> opened (oneshots w)" for g
    using that by (metis drop_other)
  with 2 new assms(1) show ?thesis
    by (auto simp: senders_ok_def)
qed

lemma deliver_effect:
  assumes "map_ok m w" and "response_map_deliver tk m i r w = (ok, w')"
  shows "map_ok m w' \<and> opened (oneshots w') = opened (oneshots w)
    \<and> (\<forall>g. oneshot_poll tk g (oneshots w')
          = (if response_maps w m i = Some g then Rx_value r else oneshot_poll tk g (oneshots w)))"
  using assms take_sender [OF assms(1), of i _ "oneshots w'" r "Rx_value r"]
  by (auto simp: response_map_deliver_def split: option.splits)

lemma cancel_effect:
  assumes "map_ok m w" and "response_map_cancel tk m i w = (ok, w')"
  shows "map_ok m w' \<and> opened (oneshots w') = opened (oneshots w)
    \<and> (\<forall>g. oneshot_poll tk g (oneshots w')
          = (if response_maps w m i = Some g then Rx_closed else oneshot_poll tk g (oneshots w)))"
  using assms take_sender [OF assms(1), of i _ "oneshots w'" undefined Rx_closed]
  by (auto simp: response_map_cancel_def split: option.splits)

text \<open>
  A step keeps the map sound, keeps an entry it does not remove, and keeps every settled receiver.
\<close>

lemma client_step_effect:
  assumes "map_ok m w"
  shows "map_ok m (client_step tk m x w) \<and> opened (oneshots w) \<subseteq> opened (oneshots (client_step tk m x w))
    \<and> (removes x \<noteq> Some i \<longrightarrow> response_maps w m i = Some h
          \<longrightarrow> response_maps (client_step tk m x w) m i = Some h)
    \<and> (\<forall>g\<in>opened (oneshots w). oneshot_poll tk g (oneshots w) \<noteq> Rx_waiting
          \<longrightarrow> oneshot_poll tk g (oneshots (client_step tk m x w)) = oneshot_poll tk g (oneshots w))"
proof (cases x)
  case (OpNextId s)
  then show ?thesis
    using assms next_id_world [OF prod.collapse [symmetric], of s w] by simp
next
  case (OpTryRegister j)
  then show ?thesis
    using try_register_effect [OF assms prod.collapse [symmetric], of j] by (auto simp: domI)
next
  case (OpDeliver j r)
  then show ?thesis
    using deliver_effect [OF assms prod.collapse [symmetric], of j r]
      deliver_frame [OF prod.collapse [symmetric], of tk m j r w]
    by (auto dest: senders_waiting [OF assms])
next
  case (OpDropId j)
  then show ?thesis
    using cancel_effect [OF assms prod.collapse [symmetric], of j]
      cancel_frame [OF prod.collapse [symmetric], of tk m j w]
    by (auto dest: senders_waiting [OF assms])
next
  case (OpSend y)
  then show ?thesis
    using assms outbound_send_world [OF prod.collapse [symmetric], of tk y w] by simp
qed

lemma client_run_effect:
  assumes "map_ok m w"
  shows "map_ok m (client_run tk m xs w)
    \<and> (response_maps w m i = Some h \<longrightarrow> Some i \<notin> removes ` set xs
          \<longrightarrow> response_maps (client_run tk m xs w) m i = Some h)
    \<and> (\<forall>g\<in>opened (oneshots w). oneshot_poll tk g (oneshots w) \<noteq> Rx_waiting
          \<longrightarrow> oneshot_poll tk g (oneshots (client_run tk m xs w)) = oneshot_poll tk g (oneshots w))"
  using assms
proof (induction xs arbitrary: w)
  case (Cons x xs)
  note step = client_step_effect [OF Cons.prems, of x i h]
  show ?case
    using Cons.IH [of "client_step tk m x w"] step by (auto simp: subset_iff)
qed simp

lemma reserve_loop_effect:
  assumes "map_ok (cs_response_map s) w" and "reserve_loop tk s n w = (r, w')"
  shows "map_ok (cs_response_map s) w' \<and> opened (oneshots w) \<subseteq> opened (oneshots w')
    \<and> (\<forall>g\<in>opened (oneshots w). oneshot_poll tk g (oneshots w') = oneshot_poll tk g (oneshots w))"
  using assms
proof (induction n arbitrary: w)
  case (Suc n)
  obtain i w1 where n: "next_id s w = (i, w1)"
    by fastforce
  have ok1: "map_ok (cs_response_map s) w1"
    using Suc.prems(1) next_id_world [OF n] by simp
  obtain r2 w2 where t: "response_map_try_register tk (cs_response_map s) (the i) w1 = (r2, w2)"
    by fastforce
  note eff = try_register_effect [OF ok1 t]
  show ?case
  proof (cases "i = None \<or> r2 \<noteq> None")
    case True
    then show ?thesis
      using Suc.prems n t eff ok1 next_id_world [OF n] by (auto split: option.splits)
  next
    case False
    then have "reserve_loop tk s n w2 = (r, w')"
      using Suc.prems(2) n t by auto
    with Suc.IH [of w2] eff show ?thesis
      using next_id_world [OF n] by (auto simp: subset_iff)
  qed
qed simp

end

subsection \<open>The life of a request\<close>

lemma send_registered_cases:
  assumes "send_registered_request tk s i method params rx w = (r, w')"
  obtains w1 where "outbound_send tk (Request (request_new i method params)) w = (True, w1)" "w' = w1"
    "r = Awaiting \<lparr>fut_rx = rx, fut_guard = guard_new (cs_response_map s) i, fut_alive = cs_drain_alive s\<rparr>"
  | w1 where "outbound_send tk (Request (request_new i method params)) w = (False, w1)"
    "r = Finished (Inl Disconnected)" "w' = snd (response_map_cancel tk (cs_response_map s) i w1)"
  using assms
  by (cases "outbound_send tk (Request (request_new i method params)) w" rule: prod.exhaust)
    (auto simp: send_registered_request_def guard_drop_def guard_new_def Let_def split: if_splits)

lemma request_cases:
  assumes "counter_ok s w" and "request tk s method params w = (r, w')"
  obtains "reserved s max_retries w (Some (Inl slot_error)) w'" "r = Some (Finished (Inl (Io slot_error)))"
  | i h w1 r1 where "reserve_request_slot tk s w = (Some (Inr (i, h)), w1)"
    "reserved s max_retries w (Some (Inr (i, h))) w1"
    "send_registered_request tk s i method params h w1 = (r1, w')" "r = Some r1"
proof -
  obtain x w1 where x: "reserve_request_slot tk s w = (x, w1)"
    by fastforce
  then have res: "reserved s max_retries w x w1"
    using reserve_loop_spec [OF assms(1)] by (simp add: reserve_request_slot_def)
  then consider "x = Some (Inl slot_error)" | i h where "x = Some (Inr (i, h))"
    by (auto simp: reserved_def Let_def)
  then show thesis
  proof cases
    case 1
    with that(1) x res assms(2) show thesis
      by (simp add: request_def)
  next
    case (2 i h)
    with that(2) x res assms(2) show thesis
      by (auto simp: request_def split: prod.splits)
  qed
qed

lemma reserved_entry:
  assumes "reserved s n w (Some (Inr (i, h))) w'"
  shows "response_maps w (cs_response_map s) i = None
    \<and> response_maps w' = (response_maps w)(cs_response_map s := (response_maps w (cs_response_map s))(i \<mapsto> h))"
  using assms by (auto simp: reserved_def Let_def response_map_contains_def)

context oneshot_channels
begin

lemma request_awaiting:
  assumes "map_ok (cs_response_map s) w" and "counter_ok s w"
    and "request tk s method params w = (Some (Awaiting f), w')"
  shows "\<exists>i. fut_guard f = guard_new (cs_response_map s) i \<and> map_ok (cs_response_map s) w'
    \<and> response_maps w' (cs_response_map s) i = Some (fut_rx f) \<and> fut_alive f = cs_drain_alive s"
  using assms(2,3)
proof (cases rule: request_cases)
  case (2 i h w1 r1)
  have ok1: "map_ok (cs_response_map s) w1"
    using reserve_loop_effect [OF assms(1)] 2(1) by (simp add: reserve_request_slot_def)
  from 2(3) show ?thesis
  proof (cases rule: send_registered_cases)
    case (1 w2)
    then show ?thesis
      using 2 ok1 reserved_entry [OF 2(2)] outbound_send_world [OF 1(1)] by auto
  qed (use 2 in simp)
qed simp

end

lemma poll_request_value:
  assumes "oneshot_poll tk (fut_rx f) (oneshots w) = Rx_value r"
    and "rx_first \<or> \<not> is_cancelled tk (fut_alive f) (tokens w)"
  shows "poll_request tk rx_first f w = Ready (Inr r, w)"
  using assms by (auto simp: poll_request_def poll_rx_def poll_alive_def guard_drop_def guard_disarm_def Let_def)

lemma guard_drop_entry:
  "response_maps (guard_drop tk (guard_new m i) w) m i = None"
  by (cases "response_maps w m i") (simp_all add: guard_drop_def guard_new_def response_map_cancel_def)

lemma poll_request_error:
  assumes "poll_request tk rx_first f w = Ready (Inl e, w')"
  shows "w' = guard_drop tk (fut_guard f) w \<and> e = Disconnected"
  using assms
  by (auto simp: poll_request_def poll_rx_def poll_alive_def Let_def
      split: oneshot_result.splits if_splits poll.splits)

lemma guard_new_id: "guard_id (guard_new m i) = Some i"
  by (simp add: guard_new_def)

lemma failed_poll_timeout:
  assumes "poll_request_timeout tk rx_first elapsed f w = Ready (Inl e, w')" and "fut_guard f = guard_new m i"
  shows "response_maps w' m i = None \<and> (e = RequestTimeout \<longrightarrow> elapsed)"
proof -
  have "w' = guard_drop tk (guard_new m i) w \<and> (e = RequestTimeout \<longrightarrow> elapsed)"
    using assms poll_request_error [of tk rx_first f w e w']
    by (auto simp: poll_request_timeout_def drop_request_def split: poll.splits if_splits)
  then show ?thesis
    by (simp add: guard_drop_entry)
qed

subsection \<open>Properties of the client sender\<close>

text \<open>
  C23. Request ids: starting from a counter in the range 1 to \<open>i32::MAX\<close>, no call of \<open>next_id\<close>
  panics, the ids are positive and run cyclically through that range, and no id comes back within
  \<open>i32::MAX\<close> consecutive calls.
\<close>

theorem request_ids_cycle:
  assumes "counter_ok s w" and "n \<le> nat i32_max"
  shows "next_ids s n w = map (\<lambda>k. Some (candidate s w k)) [0..<n] \<and> distinct (next_ids s n w)
    \<and> (\<forall>x\<in>set (next_ids s n w). \<exists>v. x = Some (IntegerId v) \<and> 1 \<le> sint v)"
proof -
  have "inj_on (\<lambda>k. Some (candidate s w k)) (set [0..<n])"
    using request_id_at_inj [OF assms(2)] by (auto simp: inj_on_def)
  then have "distinct (map (\<lambda>k. Some (candidate s w k)) [0..<n])"
    by (simp add: distinct_map del: set_upt)
  moreover have "sint (word_of_int (id_at c k) :: i32) = id_at c k" for c k
    using id_at_bounds [of c k] i32_try_from_Some_iff [of "id_at c k" "word_of_int (id_at c k)"]
    by (simp add: i32_try_from_def i32_min_def)
  ultimately show ?thesis
    using id_at_bounds by (auto simp: next_ids_eq [OF assms(1)] request_id_at_def)
qed

text \<open>A world with one client sender whose drain task runs, over the reference runtime.\<close>

definition ref_world :: "(ref_tokens, oneshot_result list, message list \<times> bool) world" where
  "ref_world = \<lparr>tokens = [([], False)], oneshots = [], outbound = ([], True),
     response_maps = (\<lambda>_. Map.empty), id_counters = (\<lambda>_. 1), next_ref = 2\<rparr>"

definition ref_sender :: client_sender where
  "ref_sender = \<lparr>cs_response_map = 0, cs_id_counter = 1, cs_drain_alive = 0\<rparr>"

lemma ref_sender_ok: "counter_ok ref_sender (ref_world\<lparr>id_counters := (\<lambda>_. i32_max)\<rparr>)" "counter_ok ref_sender ref_world"
  by (simp_all add: counter_ok_def ref_world_def ref_sender_def i32_max_def)

theorem request_ids_cycle_witness:
  "next_ids ref_sender 2 (ref_world\<lparr>id_counters := (\<lambda>_. i32_max)\<rparr>)
     = [Some (IntegerId 0x7FFFFFFF), Some (IntegerId 1)]"
  using request_ids_cycle [OF ref_sender_ok(1), of 2]
  by (simp add: i32_max_def request_id_at_def id_at_def upt_rec)

text \<open>
  C22. A reservation takes the first of the next 1000 ids that is not pending and files it, and
  it fails, leaving the map as it was, exactly when all of them are pending.
\<close>

theorem slot_is_first_free:
  assumes "counter_ok s w" and "reserve_request_slot tk s w = (r, w')"
  shows "reserved s 1000 w r w' \<and> counter_ok s w' \<and> tokens w' = tokens w \<and> outbound w' = outbound w"
  using reserve_loop_spec [OF assms(1)] reserve_loop_frame [OF assms(1)] assms(2)
  by (auto simp: reserve_request_slot_def max_retries_def)

theorem slot_is_first_free_witness:
  "reserved ref_sender 1000 ref_world (fst (reserve_request_slot ref_tokio ref_sender ref_world))
     (snd (reserve_request_slot ref_tokio ref_sender ref_world))"
  using slot_is_first_free [OF ref_sender_ok(2) prod.collapse [symmetric]] by blast

text \<open>
  With fewer than 1000 requests pending, a reservation always succeeds, with an id that was
  not pending.
\<close>

lemma slot_available:
  assumes "counter_ok s w" and "finite (dom (response_maps w (cs_response_map s)))"
    and "card (dom (response_maps w (cs_response_map s))) < 1000"
  shows "\<exists>i h w'. reserve_request_slot tk s w = (Some (Inr (i, h)), w')
    \<and> \<not> response_map_contains (cs_response_map s) i w \<and> response_map_contains (cs_response_map s) i w'"
proof -
  obtain r w' where r: "reserve_request_slot tk s w = (r, w')"
    by fastforce
  then have "reserved s 1000 w r w'"
    using reserve_loop_spec [OF assms(1)] by (simp add: reserve_request_slot_def max_retries_def)
  moreover have "\<exists>k<1000. \<not> response_map_contains (cs_response_map s) (candidate s w k) w"
    using free_candidate [OF assms(2,3)] by (auto simp: response_map_contains_def i32_max_def)
  ultimately show ?thesis
    using r by (auto simp: reserved_def Let_def response_map_contains_def)
qed

text \<open>
  C10. A request gets its own response: once \<open>request\<close> waits under an id, any interleaving of
  steps of other tasks that does not remove this id keeps it registered, so that delivering a
  response for the id makes the next poll return that response, whichever branch is polled first
  as long as the drain task runs.
\<close>

theorem request_gets_its_response:
  assumes "oneshot_channels tk opened"
    and "senders_ok tk opened (response_maps w (cs_response_map s)) (oneshots w)" and "counter_ok s w"
    and "request tk s method params w = (Some (Awaiting f), w1)"
    and "guard_id (fut_guard f) = Some i" and "Some i \<notin> removes ` set xs"
    and "response_map_deliver tk (cs_response_map s) i r (client_run tk (cs_response_map s) xs w1) = (ok, w2)"
    and "rx_first \<or> \<not> is_cancelled tk (fut_alive f) (tokens w2)"
  shows "ok \<and> poll_request tk rx_first f w2 = Ready (Inr r, w2)"
proof -
  let ?ok = "\<lambda>w. senders_ok tk opened (response_maps w (cs_response_map s)) (oneshots w)"
  note ch = assms(1)
  have w1: "?ok w1" "response_maps w1 (cs_response_map s) i = Some (fut_rx f)"
    using oneshot_channels.request_awaiting [OF ch assms(2-4)] assms(5) by (auto simp: guard_new_def)
  have run: "?ok (client_run tk (cs_response_map s) xs w1)"
    "response_maps (client_run tk (cs_response_map s) xs w1) (cs_response_map s) i = Some (fut_rx f)"
    using oneshot_channels.client_run_effect [OF ch w1(1), of xs i] w1(2) assms(6) by auto
  have "oneshot_poll tk (fut_rx f) (oneshots w2) = Rx_value r"
    using oneshot_channels.deliver_effect [OF ch run(1) assms(7)] run(2) by simp
  moreover have ok
    using deliver_frame [OF assms(7)] run(2) by simp
  ultimately show ?thesis
    using poll_request_value assms(8) by blast
qed

lemma request_first_id:
  assumes "id_counters w (cs_id_counter s) = 1" and "response_maps w (cs_response_map s) (IntegerId 1) = None"
    and "outbound w = (q, True)"
  shows "request ref_tokio s m p w
     = (Some (Awaiting \<lparr>fut_rx = length (oneshots w), fut_guard = guard_new (cs_response_map s) (IntegerId 1),
          fut_alive = cs_drain_alive s\<rparr>),
        w\<lparr>oneshots := oneshots w @ [Rx_waiting],
          outbound := (q @ [Request (request_new (IntegerId 1) m p)], True),
          response_maps := (response_maps w)(cs_response_map s :=
            (response_maps w (cs_response_map s))(IntegerId 1 \<mapsto> length (oneshots w))),
          id_counters := (id_counters w)(cs_id_counter s := 2)\<rparr>)"
proof -
  have "reserve_loop ref_tokio s (Suc n) w
     = (Some (Inr (IntegerId 1, length (oneshots w))), w\<lparr>oneshots := oneshots w @ [Rx_waiting],
          response_maps := (response_maps w)(cs_response_map s :=
            (response_maps w (cs_response_map s))(IntegerId 1 \<mapsto> length (oneshots w))),
          id_counters := (id_counters w)(cs_id_counter s := 2)\<rparr>)" for n
    using assms by (simp add: next_id_def i32_max_def i32_try_from_def i32_min_def
        response_map_try_register_def ref_tokio_def)
  from this [of 999] show ?thesis
    using assms(3) by (simp add: request_def reserve_request_slot_def max_retries_def
        send_registered_request_def outbound_send_def ref_tokio_def)
qed

lemma ref_request:
  "\<exists>w1. request ref_tokio ref_sender m p ref_world
     = (Some (Awaiting \<lparr>fut_rx = 0, fut_guard = guard_new 0 (IntegerId 1), fut_alive = 0\<rparr>), w1)"
  using request_first_id [of ref_world ref_sender "[]" m p] by (simp add: ref_world_def ref_sender_def)

theorem request_gets_its_response_witness:
  "\<exists>w2. poll_request ref_tokio True \<lparr>fut_rx = 0, fut_guard = guard_new 0 (IntegerId 1), fut_alive = 0\<rparr> w2
     = Ready (Inr (response_ok (IntegerId 1) JNull), w2)"
proof -
  have "senders_ok ref_tokio ref_opened (response_maps ref_world (cs_response_map ref_sender)) (oneshots ref_world)"
    by (simp add: ref_world_def)
  moreover obtain w1 where "request ref_tokio ref_sender [] None ref_world
     = (Some (Awaiting \<lparr>fut_rx = 0, fut_guard = guard_new 0 (IntegerId 1), fut_alive = 0\<rparr>), w1)"
    using ref_request by blast
  ultimately have reqs: "senders_ok ref_tokio ref_opened (response_maps ref_world (cs_response_map ref_sender))
      (oneshots ref_world)" "request ref_tokio ref_sender [] None ref_world
     = (Some (Awaiting \<lparr>fut_rx = 0, fut_guard = guard_new 0 (IntegerId 1), fut_alive = 0\<rparr>), w1)"
    by blast+
  note resp = request_gets_its_response [OF ref_rt.oneshot_channels_axioms reqs(1) ref_sender_ok(2) reqs(2), where
      xs = "[OpTryRegister (IntegerId 1), OpTryRegister (IntegerId 2), OpDropId (IntegerId 2)]"
      and rx_first = True, OF _ _ prod.collapse [symmetric]]
  show ?thesis
    by (rule exI, rule resp [THEN conjunct2, of "IntegerId 1"]) (simp_all add: guard_new_def)
qed



text \<open>
  C24. A request waits only while it can still be answered: polling it is pending exactly when its
  receiver waits and the drain task of the connection runs. So once the transport is broken every
  pending request ends, and with a timeout every request ends.
\<close>

theorem request_pending_iff:
  "(poll_request tk rx_first f w = Pending
      \<longleftrightarrow> oneshot_poll tk (fut_rx f) (oneshots w) = Rx_waiting \<and> \<not> is_cancelled tk (fut_alive f) (tokens w))
   \<and> poll_request_timeout tk rx_first True f w \<noteq> Pending"
proof -
  have pending: "poll_request tk rx_first f w = Pending
      \<longleftrightarrow> oneshot_poll tk (fut_rx f) (oneshots w) = Rx_waiting \<and> \<not> is_cancelled tk (fut_alive f) (tokens w)"
    by (cases "oneshot_poll tk (fut_rx f) (oneshots w)"; cases rx_first)
      (simp_all add: poll_request_def poll_rx_def poll_alive_def Let_def)
  then show ?thesis
    by (simp add: poll_request_timeout_def split: poll.splits)
qed


end
