(* ===== verification/Transport.thy ===== *)
theory Transport
  imports Lsp_Codec
begin

text \<open>
  \<open>src/src/transport.rs\<close>: a transport is an I/O stream framed with a fresh codec. \<open>Framed::new\<close>
  and \<open>tokio::io::duplex\<close> are the arguments \<open>framed_new\<close> and \<open>duplex\<close>.
\<close>

definition transport :: "('io \<Rightarrow> lsp_codec \<Rightarrow> 'framed) \<Rightarrow> 'io \<Rightarrow> 'framed" where
  "transport framed_new io = framed_new io codec_new"

definition duplex_transport ::
  "('io \<Rightarrow> lsp_codec \<Rightarrow> 'framed) \<Rightarrow> (nat \<Rightarrow> 'io \<times> 'io) \<Rightarrow> nat \<Rightarrow> 'framed \<times> 'framed" where
  "duplex_transport framed_new duplex buffer_size =
     (let (a, b) = duplex buffer_size in (transport framed_new a, transport framed_new b))"

end
