(* ===== verification/Connection.thy ===== *)
theory Connection
  imports Client_Sender Transport
begin

text \<open>
  \<open>src/src/connection.rs\<close>: the connection with its drain task, message routing, request
  cancellation, the initialization handshake, shutdown and exit.

  The receiver half of a connection is the list of the events its stream is going to give: an
  item, an I/O error or the end of the stream, and the moments when a running timer elapses. A
  call that awaits more than the list holds is \<open>Pending\<close>. The outbound channel lives in the world
  (\<open>outbound\<close>); a connection is the record of the other fields of the struct.
\<close>

datatype recv_event = Next "(io_error + message) option" | Elapsed

record connection =
  receiver :: "recv_event list"
  conn_queue :: request_queue
  conn_state :: lifecycle_state
  conn_shutdown_token :: token
  conn_response_map :: "ref option"
  conn_drain_alive :: token

subsection \<open>The drain task\<close>

definition spawn_drain_task ::
  "('tw, 'ow, 'mw) tokio \<Rightarrow> ('tw, 'ow, 'mw) world \<Rightarrow> token \<times> ('tw, 'ow, 'mw) world" where
  "spawn_drain_task tk w =
     (let (alive, tw) = token_new tk (tokens w)
      in (alive, w\<lparr>outbound := mpsc_channel tk, tokens := tw\<rparr>))"

text \<open>The end of the task drops the receiver of the channel and the guard of its token.\<close>

definition drain_exit ::
  "('tw, 'ow, 'mw) tokio \<Rightarrow> token \<Rightarrow> ('tw, 'ow, 'mw) world \<Rightarrow> ('tw, 'ow, 'mw) world" where
  "drain_exit tk alive w = w\<lparr>outbound := mpsc_close tk (outbound w), tokens := token_cancel tk alive (tokens w)\<rparr>"

text \<open>
  A run of the task, given the results of the successive \<open>sender.send(..)\<close> calls and whether all
  senders of the channel are gone. It returns the messages written and whether the task ended.
\<close>

fun drain_task ::
  "('tw, 'ow, 'mw) tokio \<Rightarrow> token \<Rightarrow> bool \<Rightarrow> (io_error + unit) list \<Rightarrow> ('tw, 'ow, 'mw) world
     \<Rightarrow> message list \<times> bool \<times> ('tw, 'ow, 'mw) world" where
  "drain_task tk alive gone [] w = ([], False, w)"
| "drain_task tk alive gone (r # rs) w =
     (case mpsc_recv tk (outbound w) of
        (None, mw) \<Rightarrow>
          if gone then ([], True, drain_exit tk alive (w\<lparr>outbound := mw\<rparr>)) else ([], False, w\<lparr>outbound := mw\<rparr>)
      | (Some m, mw) \<Rightarrow>
          (case r of
             Inl e \<Rightarrow> ([], True, drain_exit tk alive (w\<lparr>outbound := mw\<rparr>))
           | Inr _ \<Rightarrow>
               (case drain_task tk alive gone rs (w\<lparr>outbound := mw\<rparr>) of (ms, ended, w') \<Rightarrow> (m # ms, ended, w'))))"

subsection \<open>Construction and accessors\<close>

definition with_request_queue ::
  "('tw, 'ow, 'mw) tokio \<Rightarrow> ('framed \<Rightarrow> 'sink \<times> recv_event list) \<Rightarrow> ('io \<Rightarrow> lsp_codec \<Rightarrow> 'framed)
     \<Rightarrow> 'io \<Rightarrow> request_queue \<Rightarrow> ('tw, 'ow, 'mw) world \<Rightarrow> connection \<times> ('tw, 'ow, 'mw) world" where
  "with_request_queue tk split framed_new io q w =
     (let (sender, rx) = split (transport framed_new io);
          (alive, w1) = spawn_drain_task tk w;
          (shutdown, tw) = token_new tk (tokens w1)
      in (\<lparr>receiver = rx, conn_queue = q, conn_state = lifecycle_default, conn_shutdown_token = shutdown,
           conn_response_map = None, conn_drain_alive = alive\<rparr>, w1\<lparr>tokens := tw\<rparr>))"

definition from_transport ::
  "('tw, 'ow, 'mw) tokio \<Rightarrow> ('framed \<Rightarrow> 'sink \<times> recv_event list) \<Rightarrow> 'framed \<Rightarrow> ('tw, 'ow, 'mw) world
     \<Rightarrow> connection \<times> ('tw, 'ow, 'mw) world" where
  "from_transport tk split tr w =
     (let (sender, rx) = split tr;
          (alive, w1) = spawn_drain_task tk w;
          (shutdown, tw) = token_new tk (tokens w1)
      in (\<lparr>receiver = rx, conn_queue = request_queue_new, conn_state = lifecycle_default,
           conn_shutdown_token = shutdown, conn_response_map = None, conn_drain_alive = alive\<rparr>,
          w1\<lparr>tokens := tw\<rparr>))"

definition connection_new ::
  "('tw, 'ow, 'mw) tokio \<Rightarrow> ('framed \<Rightarrow> 'sink \<times> recv_event list) \<Rightarrow> ('io \<Rightarrow> lsp_codec \<Rightarrow> 'framed)
     \<Rightarrow> 'io \<Rightarrow> ('tw, 'ow, 'mw) world \<Rightarrow> connection \<times> ('tw, 'ow, 'mw) world" where
  "connection_new tk split framed_new io w = from_transport tk split (transport framed_new io) w"

definition lifecycle_state :: "connection \<Rightarrow> lifecycle_state" where
  "lifecycle_state c = conn_state c"

definition shutdown_token :: "connection \<Rightarrow> token" where
  "shutdown_token c = conn_shutdown_token c"

definition on_shutdown :: "('tw, 'ow, 'mw) tokio \<Rightarrow> connection \<Rightarrow> ('tw, 'ow, 'mw) world \<Rightarrow> unit poll" where
  "on_shutdown tk c w = (if is_cancelled tk (conn_shutdown_token c) (tokens w) then Ready () else Pending)"

definition is_running :: "connection \<Rightarrow> bool" where
  "is_running c = (conn_state c = Running)"

definition is_shutting_down :: "connection \<Rightarrow> bool" where
  "is_shutting_down c = (conn_state c = ShuttingDown)"

subsection \<open>Sending and routing\<close>

definition closed_error :: io_error where
  "closed_error = Io_error BrokenPipe (Io_text ''connection closed'')"

definition conn_send ::
  "('tw, 'ow, 'mw) tokio \<Rightarrow> message \<Rightarrow> ('tw, 'ow, 'mw) world \<Rightarrow> (io_error + unit) \<times> ('tw, 'ow, 'mw) world" where
  "conn_send tk m w =
     (let (ok, w') = outbound_send tk m w in (if ok then Inr () else Inl closed_error, w'))"

definition route_request ::
  "('tw, 'ow, 'mw) tokio \<Rightarrow> connection \<Rightarrow> request \<Rightarrow> ('tw, 'ow, 'mw) world
     \<Rightarrow> incoming_message \<times> connection \<times> ('tw, 'ow, 'mw) world" where
  "route_request tk c req w =
     (let (t, tw) = child_token tk (conn_shutdown_token c) (tokens w);
          q = conn_queue c
      in (IncomingRequest req t,
          c\<lparr>conn_queue := q\<lparr>incoming := incoming_register (incoming q) (req_id req) t\<rparr>\<rparr>,
          w\<lparr>tokens := tw\<rparr>))"

definition route_notification ::
  "('tw, 'ow, 'mw) tokio \<Rightarrow> connection \<Rightarrow> notification \<Rightarrow> ('tw, 'ow, 'mw) world
     \<Rightarrow> incoming_message \<times> connection \<times> ('tw, 'ow, 'mw) world" where
  "route_notification tk c n w =
     (if notif_method n = cancel_request_method then
        (case parse_cancel_params (notif_params n) of
           Some i \<Rightarrow>
             (CancelHandled, c,
              w\<lparr>tokens := snd (incoming_cancel tk (incoming (conn_queue c)) i (tokens w))\<rparr>)
         | None \<Rightarrow> (IncomingNotification n, c, w))
      else (IncomingNotification n, c, w))"

definition route_outgoing ::
  "('tw, 'ow, 'mw) tokio \<Rightarrow> connection \<Rightarrow> request_id \<Rightarrow> response \<Rightarrow> ('tw, 'ow, 'mw) world
     \<Rightarrow> incoming_message \<times> connection \<times> ('tw, 'ow, 'mw) world" where
  "route_outgoing tk c i r w =
     (if outgoing_is_pending (outgoing (conn_queue c)) i then
        (let (ok, oq, ow) = outgoing_complete tk (outgoing (conn_queue c)) i r (oneshots w)
         in (ResponseRouted, c\<lparr>conn_queue := (conn_queue c)\<lparr>outgoing := oq\<rparr>\<rparr>, w\<lparr>oneshots := ow\<rparr>))
      else (ResponseUnknown r, c, w))"

definition route_response ::
  "('tw, 'ow, 'mw) tokio \<Rightarrow> connection \<Rightarrow> response \<Rightarrow> ('tw, 'ow, 'mw) world
     \<Rightarrow> incoming_message \<times> connection \<times> ('tw, 'ow, 'mw) world" where
  "route_response tk c r w =
     (case resp_id r of
        None \<Rightarrow> (ResponseUnknown r, c, w)
      | Some i \<Rightarrow>
          (case conn_response_map c of
             Some m \<Rightarrow>
               if response_map_contains m i w then
                 (case response_map_deliver tk m i r w of
                    (True, w') \<Rightarrow> (ResponseRouted, c, w')
                  | (False, w') \<Rightarrow> route_outgoing tk c i r w')
               else route_outgoing tk c i r w
           | None \<Rightarrow> route_outgoing tk c i r w))"

fun route ::
  "('tw, 'ow, 'mw) tokio \<Rightarrow> connection \<Rightarrow> message \<Rightarrow> ('tw, 'ow, 'mw) world
     \<Rightarrow> incoming_message \<times> connection \<times> ('tw, 'ow, 'mw) world" where
  "route tk c (Request req) w = route_request tk c req w"
| "route tk c (Notification n) w = route_notification tk c n w"
| "route tk c (Response r) w = route_response tk c r w"

definition cancel_incoming ::
  "('tw, 'ow, 'mw) tokio \<Rightarrow> connection \<Rightarrow> request_id \<Rightarrow> ('tw, 'ow, 'mw) world
     \<Rightarrow> bool \<times> ('tw, 'ow, 'mw) world" where
  "cancel_incoming tk c i w =
     (let (ok, tw) = incoming_cancel tk (incoming (conn_queue c)) i (tokens w) in (ok, w\<lparr>tokens := tw\<rparr>))"

definition conn_client_sender ::
  "connection \<Rightarrow> ('tw, 'ow, 'mw) world \<Rightarrow> client_sender \<times> connection \<times> ('tw, 'ow, 'mw) world" where
  "conn_client_sender c w =
     (case conn_response_map c of
        Some m \<Rightarrow> (let (s, w') = client_sender_new m (conn_drain_alive c) w in (s, c, w'))
      | None \<Rightarrow>
          (let (m, w1) = response_map_new w;
               (s, w2) = client_sender_new m (conn_drain_alive c) w1
           in (s, c\<lparr>conn_response_map := Some m\<rparr>, w2)))"

definition handle_cancel_request ::
  "('tw, 'ow, 'mw) tokio \<Rightarrow> connection \<Rightarrow> notification \<Rightarrow> ('tw, 'ow, 'mw) world
     \<Rightarrow> bool option \<times> ('tw, 'ow, 'mw) world" where
  "handle_cancel_request tk c n w =
     (if notif_method n \<noteq> cancel_request_method then (None, w)
      else
        (case parse_cancel_params (notif_params n) of
           None \<Rightarrow> (None, w)
         | Some i \<Rightarrow> (let (ok, w') = cancel_incoming tk c i w in (Some ok, w'))))"

definition cancel_notification :: "request_id \<Rightarrow> notification" where
  "cancel_notification i =
     notification_new cancel_request_method (Some (JObject [(''id'', request_id_serialize i)]))"

definition conn_cancel ::
  "('tw, 'ow, 'mw) tokio \<Rightarrow> connection \<Rightarrow> request_id \<Rightarrow> ('tw, 'ow, 'mw) world
     \<Rightarrow> (io_error + bool) \<times> connection \<times> ('tw, 'ow, 'mw) world" where
  "conn_cancel tk c i w =
     (case conn_send tk (Notification (cancel_notification i)) w of
        (Inl e, w1) \<Rightarrow> (Inl e, c, w1)
      | (Inr _, w1) \<Rightarrow>
          (let (ok, oq, ow) = outgoing_cancel tk (outgoing (conn_queue c)) i (oneshots w1)
           in (Inr ok, c\<lparr>conn_queue := (conn_queue c)\<lparr>outgoing := oq\<rparr>\<rparr>, w1\<lparr>oneshots := ow\<rparr>)))"

subsection \<open>Initialization, shutdown and exit\<close>

definition not_initialized_response :: "request \<Rightarrow> message" where
  "not_initialized_response req =
     Response (response_err (req_id req)
       (response_error_new ServerNotInitialized ''Server not yet initialized''))"

text \<open>The loop of \<open>initialize_start\<close>; no timer runs, so a timer event changes nothing.\<close>

fun initialize_start_loop ::
  "('tw, 'ow, 'mw) tokio \<Rightarrow> connection \<Rightarrow> recv_event list \<Rightarrow> ('tw, 'ow, 'mw) world
     \<Rightarrow> (protocol_error + request_id \<times> json) poll \<times> connection \<times> ('tw, 'ow, 'mw) world" where
  "initialize_start_loop tk c [] w = (Pending, c\<lparr>receiver := []\<rparr>, w)"
| "initialize_start_loop tk c (Elapsed # es) w = initialize_start_loop tk c es w"
| "initialize_start_loop tk c (Next (Some (Inr (Request req))) # es) w =
     (if req_method req = initialize_method then
        (Ready (Inr (req_id req, case req_params req of Some p \<Rightarrow> p | None \<Rightarrow> JNull)),
         c\<lparr>conn_state := Initializing, receiver := es\<rparr>, w)
      else
        (case conn_send tk (not_initialized_response req) w of
           (Inl e, w') \<Rightarrow> (Ready (Inl (Io e)), c\<lparr>receiver := es\<rparr>, w')
         | (Inr _, w') \<Rightarrow> initialize_start_loop tk c es w'))"
| "initialize_start_loop tk c (Next (Some (Inr (Notification n))) # es) w =
     (if notif_method n = exit_method then (Ready (Inl Disconnected), c\<lparr>receiver := es\<rparr>, w)
      else initialize_start_loop tk c es w)"
| "initialize_start_loop tk c (Next (Some (Inr (Response r))) # es) w = initialize_start_loop tk c es w"
| "initialize_start_loop tk c (Next (Some (Inl e)) # es) w = (Ready (Inl (Io e)), c\<lparr>receiver := es\<rparr>, w)"
| "initialize_start_loop tk c (Next None # es) w = (Ready (Inl Disconnected), c\<lparr>receiver := es\<rparr>, w)"

definition initialize_start ::
  "('tw, 'ow, 'mw) tokio \<Rightarrow> connection \<Rightarrow> ('tw, 'ow, 'mw) world
     \<Rightarrow> (protocol_error + request_id \<times> json) poll \<times> connection \<times> ('tw, 'ow, 'mw) world" where
  "initialize_start tk c w = initialize_start_loop tk c (receiver c) w"

text \<open>The loop of \<open>initialize_finish\<close> under its timeout of one minute.\<close>

fun initialize_finish_loop ::
  "('tw, 'ow, 'mw) tokio \<Rightarrow> connection \<Rightarrow> recv_event list \<Rightarrow> ('tw, 'ow, 'mw) world
     \<Rightarrow> (protocol_error + unit) poll \<times> connection \<times> ('tw, 'ow, 'mw) world" where
  "initialize_finish_loop tk c [] w = (Pending, c\<lparr>receiver := []\<rparr>, w)"
| "initialize_finish_loop tk c (Elapsed # es) w = (Ready (Inl InitializeTimeout), c\<lparr>receiver := es\<rparr>, w)"
| "initialize_finish_loop tk c (Next (Some (Inr (Notification n))) # es) w =
     (if notif_method n = initialized_method then
        (Ready (Inr ()), c\<lparr>conn_state := Running, receiver := es\<rparr>, w)
      else initialize_finish_loop tk c es w)"
| "initialize_finish_loop tk c (Next (Some (Inr (Request req))) # es) w =
     (case conn_send tk (not_initialized_response req) w of
        (Inl e, w') \<Rightarrow> (Ready (Inl (Io e)), c\<lparr>receiver := es\<rparr>, w')
      | (Inr _, w') \<Rightarrow> initialize_finish_loop tk c es w')"
| "initialize_finish_loop tk c (Next (Some (Inr (Response r))) # es) w = initialize_finish_loop tk c es w"
| "initialize_finish_loop tk c (Next (Some (Inl e)) # es) w = (Ready (Inl (Io e)), c\<lparr>receiver := es\<rparr>, w)"
| "initialize_finish_loop tk c (Next None # es) w = (Ready (Inl Disconnected), c\<lparr>receiver := es\<rparr>, w)"

definition initialize_finish ::
  "('tw, 'ow, 'mw) tokio \<Rightarrow> connection \<Rightarrow> request_id \<Rightarrow> json \<Rightarrow> ('tw, 'ow, 'mw) world
     \<Rightarrow> (protocol_error + unit) poll \<times> connection \<times> ('tw, 'ow, 'mw) world" where
  "initialize_finish tk c i initialize_result w =
     (case conn_send tk (Response (response_ok i initialize_result)) w of
        (Inl e, w') \<Rightarrow> (Ready (Inl (Io e)), c, w')
      | (Inr _, w') \<Rightarrow> initialize_finish_loop tk c (receiver c) w')"

definition initialize ::
  "('tw, 'ow, 'mw) tokio \<Rightarrow> connection \<Rightarrow> json \<Rightarrow> ('tw, 'ow, 'mw) world
     \<Rightarrow> (protocol_error + json) poll \<times> connection \<times> ('tw, 'ow, 'mw) world" where
  "initialize tk c server_capabilities w =
     (case initialize_start tk c w of
        (Pending, c1, w1) \<Rightarrow> (Pending, c1, w1)
      | (Ready (Inl e), c1, w1) \<Rightarrow> (Ready (Inl e), c1, w1)
      | (Ready (Inr (i, params)), c1, w1) \<Rightarrow>
          (case initialize_finish tk c1 i (JObject [(''capabilities'', server_capabilities)]) w1 of
             (Pending, c2, w2) \<Rightarrow> (Pending, c2, w2)
           | (Ready (Inl e), c2, w2) \<Rightarrow> (Ready (Inl e), c2, w2)
           | (Ready (Inr _), c2, w2) \<Rightarrow> (Ready (Inr params), c2, w2)))"

definition handle_shutdown ::
  "('tw, 'ow, 'mw) tokio \<Rightarrow> connection \<Rightarrow> request_id \<Rightarrow> ('tw, 'ow, 'mw) world
     \<Rightarrow> (protocol_error + unit) \<times> connection \<times> ('tw, 'ow, 'mw) world" where
  "handle_shutdown tk c i w =
     (let w1 = w\<lparr>tokens := token_cancel tk (conn_shutdown_token c) (tokens w)\<rparr>;
          c1 = c\<lparr>conn_state := ShuttingDown\<rparr>
      in case conn_send tk (Response (response_ok i JNull)) w1 of
           (Inl e, w2) \<Rightarrow> (Inl (Io e), c1, w2)
         | (Inr _, w2) \<Rightarrow> (Inr (), c1, w2))"

definition handle_exit :: "connection \<Rightarrow> exit_code \<times> connection" where
  "handle_exit c =
     (let was_shutting_down = (conn_state c = ShuttingDown)
      in (if was_shutting_down then ExitSuccess else ExitError, c\<lparr>conn_state := Exited\<rparr>))"

text \<open>The loop of \<open>send_request\<close> under its timeout.\<close>

fun send_request_loop ::
  "request_id \<Rightarrow> connection \<Rightarrow> recv_event list \<Rightarrow> (protocol_error + response) poll \<times> connection" where
  "send_request_loop i c [] = (Pending, c\<lparr>receiver := []\<rparr>)"
| "send_request_loop i c (Elapsed # es) = (Ready (Inl RequestTimeout), c\<lparr>receiver := es\<rparr>)"
| "send_request_loop i c (Next (Some (Inr (Response r))) # es) =
     (if resp_id r = Some i then (Ready (Inr r), c\<lparr>receiver := es\<rparr>) else send_request_loop i c es)"
| "send_request_loop i c (Next (Some (Inr m)) # es) = send_request_loop i c es"
| "send_request_loop i c (Next (Some (Inl e)) # es) = (Ready (Inl (Io e)), c\<lparr>receiver := es\<rparr>)"
| "send_request_loop i c (Next None # es) = (Ready (Inl Disconnected), c\<lparr>receiver := es\<rparr>)"

definition send_request ::
  "('tw, 'ow, 'mw) tokio \<Rightarrow> connection \<Rightarrow> request_id \<Rightarrow> string \<Rightarrow> json option \<Rightarrow> ('tw, 'ow, 'mw) world
     \<Rightarrow> (protocol_error + response) poll \<times> connection \<times> ('tw, 'ow, 'mw) world" where
  "send_request tk c i method params w =
     (case conn_send tk (Request (request_new i method params)) w of
        (Inl e, w') \<Rightarrow> (Ready (Inl (Io e)), c, w')
      | (Inr _, w') \<Rightarrow> (case send_request_loop i c (receiver c) of (r, c') \<Rightarrow> (r, c', w')))"

subsection \<open>Standard input and output\<close>

text \<open>
  \<open>StdioTransport\<close> pairs the two standard streams: reading polls the first, writing, flushing and
  shutting down the second. The poll functions of tokio are arguments.
\<close>

record ('i, 'o) stdio_transport =
  stdin :: 'i
  stdout :: 'o

definition stdio_new :: "'i \<Rightarrow> 'o \<Rightarrow> ('i, 'o) stdio_transport" where
  "stdio_new i out = \<lparr>stdin = i, stdout = out\<rparr>"

definition stdio_default :: "'i \<Rightarrow> 'o \<Rightarrow> ('i, 'o) stdio_transport" where
  "stdio_default i out = stdio_new i out"

definition stdio_poll_read ::
  "('i \<Rightarrow> 'a \<times> 'i) \<Rightarrow> ('i, 'o) stdio_transport \<Rightarrow> 'a \<times> ('i, 'o) stdio_transport" where
  "stdio_poll_read poll_read s = (let (r, i) = poll_read (stdin s) in (r, s\<lparr>stdin := i\<rparr>))"

definition stdio_poll_stdout ::
  "('o \<Rightarrow> 'a \<times> 'o) \<Rightarrow> ('i, 'o) stdio_transport \<Rightarrow> 'a \<times> ('i, 'o) stdio_transport" where
  "stdio_poll_stdout poll_out s = (let (r, out) = poll_out (stdout s) in (r, s\<lparr>stdout := out\<rparr>))"

definition stdio ::
  "('tw, 'ow, 'mw) tokio \<Rightarrow> ('framed \<Rightarrow> 'sink \<times> recv_event list)
     \<Rightarrow> (('i, 'o) stdio_transport \<Rightarrow> lsp_codec \<Rightarrow> 'framed) \<Rightarrow> 'i \<Rightarrow> 'o
     \<Rightarrow> ('tw, 'ow, 'mw) world \<Rightarrow> connection \<times> ('tw, 'ow, 'mw) world" where
  "stdio tk split framed_new i out w = connection_new tk split framed_new (stdio_new i out) w"

subsection \<open>Waiting loops\<close>

text \<open>
  The three loops share one shape: an event ends the loop with an outcome, or is answered by a
  message, or is passed over. The contract says so, and its lemma gives the loop in closed form:
  it ends at the first event with an outcome, having answered the events before it in order.
\<close>

locale waiting_loop = outbound_sends tk queued live
  for tk :: "('tw, 'ow, 'mw) tokio" and queued :: "'mw \<Rightarrow> message list" and live :: "'mw \<Rightarrow> bool" +
  fixes loop :: "connection \<Rightarrow> recv_event list \<Rightarrow> ('tw, 'ow, 'mw) world
      \<Rightarrow> 'a poll \<times> connection \<times> ('tw, 'ow, 'mw) world"
    and outcome :: "recv_event \<Rightarrow> 'a option"
    and answer :: "recv_event \<Rightarrow> message list"
    and settle :: "recv_event \<Rightarrow> connection \<Rightarrow> connection"
    and send_failed :: "io_error \<Rightarrow> 'a"
  assumes loop_nil: "loop c [] w = (Pending, c\<lparr>receiver := []\<rparr>, w)"
    and loop_outcome: "outcome e = Some a \<Longrightarrow>
      loop c (e # es) w = (Ready a, (settle e c)\<lparr>receiver := es\<rparr>, w) \<and> answer e = []"
    and loop_pass: "outcome e = None \<Longrightarrow> answer e = [] \<Longrightarrow> loop c (e # es) w = loop c es w"
    and loop_answer: "outcome e = None \<Longrightarrow> answer e \<noteq> [] \<Longrightarrow> \<exists>m. answer e = [m] \<and> loop c (e # es) w =
      (case conn_send tk m w of
         (Inl err, w') \<Rightarrow> (Ready (send_failed err), c\<lparr>receiver := es\<rparr>, w')
       | (Inr _, w') \<Rightarrow> loop c es w')"
begin

lemma conn_send_live:
  assumes "live (outbound w)" and "conn_send tk m w = (r, w')"
  shows "r = Inr () \<and> live (outbound w') \<and> queued (outbound w') = queued (outbound w) @ [m]
    \<and> w' = w\<lparr>outbound := outbound w'\<rparr>"
  using assms send_live [OF assms(1)]
  by (auto simp: conn_send_def outbound_send_def split: prod.splits if_splits)

lemma loop_first_outcome:
  assumes "live (outbound w)" and "loop c es w = (r, c', w')"
  shows "live (outbound w') \<and> w' = w\<lparr>outbound := outbound w'\<rparr>
    \<and> queued (outbound w') = queued (outbound w) @ concat (map answer (takeWhile (\<lambda>e. outcome e = None) es))
    \<and> (case dropWhile (\<lambda>e. outcome e = None) es of
         [] \<Rightarrow> r = Pending \<and> c' = c\<lparr>receiver := []\<rparr>
       | e # rest \<Rightarrow> r = Ready (the (outcome e)) \<and> c' = (settle e c)\<lparr>receiver := rest\<rparr>)"
  using assms
proof (induction es arbitrary: w)
  case Nil
  then show ?case
    by (simp add: loop_nil)
next
  case (Cons e es)
  show ?case
  proof (cases "outcome e")
    case (Some a)
    then show ?thesis
      using loop_outcome [OF Some] Cons.prems by auto
  next
    case None
    show ?thesis
    proof (cases "answer e = []")
      case True
      then show ?thesis
        using Cons loop_pass [OF None True] None by simp
    next
      case False
      obtain m where m: "answer e = [m]"
        "loop c (e # es) w = (case conn_send tk m w of
           (Inl err, w') \<Rightarrow> (Ready (send_failed err), c\<lparr>receiver := es\<rparr>, w')
         | (Inr _, w') \<Rightarrow> loop c es w')"
        using loop_answer [OF None False] by blast
      obtain x w1 where s: "conn_send tk m w = (x, w1)"
        by fastforce
      note sent = conn_send_live [OF Cons.prems(1) s]
      have l: "loop c es w1 = (r, c', w')"
        using m(2) s sent Cons.prems(2) by simp
      have "w1\<lparr>outbound := outbound w'\<rparr> = w\<lparr>outbound := outbound w'\<rparr>"
        using sent by (metis world.surjective world.update_convs(3))
      with Cons.IH [OF _ l] sent m(1) None show ?thesis
        by simp
    qed
  qed
qed

lemma conn_send_closed:
  assumes "\<not> live (outbound w)" and "conn_send tk m w = (r, w')"
  shows "r = Inl closed_error \<and> \<not> live (outbound w') \<and> queued (outbound w') = queued (outbound w)"
  using assms send_dead [OF assms(1)] by (auto simp: conn_send_def outbound_send_def split: prod.splits if_splits)

text \<open>On a closed channel the loop also ends at the first event that it would have to answer.\<close>

lemma loop_closed:
  assumes "\<not> live (outbound w)" and "loop c es w = (r, c', w')"
  shows "queued (outbound w') = queued (outbound w)
    \<and> (case dropWhile (\<lambda>e. outcome e = None \<and> answer e = []) es of
         [] \<Rightarrow> r = Pending \<and> c' = c\<lparr>receiver := []\<rparr>
       | e # rest \<Rightarrow>
           (case outcome e of
              Some a \<Rightarrow> r = Ready a \<and> c' = (settle e c)\<lparr>receiver := rest\<rparr>
            | None \<Rightarrow> r = Ready (send_failed closed_error) \<and> c' = c\<lparr>receiver := rest\<rparr>))"
  using assms
proof (induction es arbitrary: w)
  case Nil
  then show ?case
    by (simp add: loop_nil)
next
  case (Cons e es)
  consider a where "outcome e = Some a" | "outcome e = None" "answer e = []" | "outcome e = None" "answer e \<noteq> []"
    by (cases "outcome e") auto
  then show ?case
  proof cases
    case 1
    then show ?thesis
      using loop_outcome [OF 1] Cons.prems by auto
  next
    case 2
    then show ?thesis
      using Cons loop_pass [OF 2] by simp
  next
    case 3
    obtain m where m: "loop c (e # es) w = (case conn_send tk m w of
           (Inl err, w') \<Rightarrow> (Ready (send_failed err), c\<lparr>receiver := es\<rparr>, w')
         | (Inr _, w') \<Rightarrow> loop c es w')"
      using loop_answer [OF 3] by blast
    obtain x w1 where s: "conn_send tk m w = (x, w1)"
      by fastforce
    show ?thesis
      using m s conn_send_closed [OF Cons.prems(1) s] Cons.prems(2) 3 by simp
  qed
qed

end

text \<open>The three loops: what ends them, what they answer, and what they change of the connection.\<close>

definition stream_outcome :: "(io_error + message) option \<Rightarrow> protocol_error option" where
  "stream_outcome x = (case x of None \<Rightarrow> Some Disconnected | Some (Inl e) \<Rightarrow> Some (Io e) | Some (Inr _) \<Rightarrow> None)"

fun start_outcome :: "recv_event \<Rightarrow> (protocol_error + request_id \<times> json) option" where
  "start_outcome (Next (Some (Inr (Request req)))) =
     (if req_method req = ''initialize''
      then Some (Inr (req_id req, case req_params req of Some p \<Rightarrow> p | None \<Rightarrow> JNull)) else None)"
| "start_outcome (Next (Some (Inr (Notification n)))) =
     (if notif_method n = ''exit'' then Some (Inl Disconnected) else None)"
| "start_outcome (Next x) = map_option Inl (stream_outcome x)"
| "start_outcome Elapsed = None"

fun finish_outcome :: "recv_event \<Rightarrow> (protocol_error + unit) option" where
  "finish_outcome (Next (Some (Inr (Notification n)))) =
     (if notif_method n = ''initialized'' then Some (Inr ()) else None)"
| "finish_outcome (Next x) = map_option Inl (stream_outcome x)"
| "finish_outcome Elapsed = Some (Inl InitializeTimeout)"

fun request_outcome :: "request_id \<Rightarrow> recv_event \<Rightarrow> (protocol_error + response) option" where
  "request_outcome i (Next (Some (Inr (Response r)))) = (if resp_id r = Some i then Some (Inr r) else None)"
| "request_outcome i (Next x) = map_option Inl (stream_outcome x)"
| "request_outcome i Elapsed = Some (Inl RequestTimeout)"

text \<open>A request that arrives too early is refused with \<open>ServerNotInitialized\<close>.\<close>

definition refusals :: "(recv_event \<Rightarrow> 'a option) \<Rightarrow> recv_event \<Rightarrow> message list" where
  "refusals outcome e =
     (case e of
        Next (Some (Inr (Request req))) \<Rightarrow> if outcome e = None then [not_initialized_response req] else []
      | _ \<Rightarrow> [])"

definition on_success ::
  "(recv_event \<Rightarrow> ('e + 'a) option) \<Rightarrow> lifecycle_state \<Rightarrow> recv_event \<Rightarrow> connection \<Rightarrow> connection" where
  "on_success outcome st e c =
     (case outcome e of Some (Inr _) \<Rightarrow> c\<lparr>conn_state := st\<rparr> | _ \<Rightarrow> c)"

lemma recv_event_cases [case_names Elapsed Request Notification Response Err End]:
  obtains "e = Elapsed" | r where "e = Next (Some (Inr (Request r)))"
  | n where "e = Next (Some (Inr (Notification n)))" | r where "e = Next (Some (Inr (Response r)))"
  | x where "e = Next (Some (Inl x))" | "e = Next None"
  by (metis message.exhaust old.sum.exhaust option.exhaust recv_event.exhaust)

lemmas loop_simps = refusals_def on_success_def stream_outcome_def method_defs

sublocale outbound_sends \<subseteq> start_loop: waiting_loop tk queued live
  "initialize_start_loop tk" start_outcome "refusals start_outcome" "on_success start_outcome Initializing"
  "\<lambda>e. Inl (Io e)"
proof unfold_locales
  fix e :: recv_event and a c es w
  show "start_outcome e = Some a \<Longrightarrow> initialize_start_loop tk c (e # es) w
      = (Ready a, (on_success start_outcome Initializing e c)\<lparr>receiver := es\<rparr>, w) \<and> refusals start_outcome e = []"
    by (cases e rule: recv_event_cases) (auto simp: loop_simps split: if_splits)
  show "start_outcome e = None \<Longrightarrow> refusals start_outcome e = [] \<Longrightarrow>
      initialize_start_loop tk c (e # es) w = initialize_start_loop tk c es w"
    by (cases e rule: recv_event_cases) (auto simp: loop_simps split: if_splits)
  show "start_outcome e = None \<Longrightarrow> refusals start_outcome e \<noteq> [] \<Longrightarrow> \<exists>m. refusals start_outcome e = [m] \<and>
      initialize_start_loop tk c (e # es) w = (case conn_send tk m w of
         (Inl err, w') \<Rightarrow> (Ready (Inl (Io err)), c\<lparr>receiver := es\<rparr>, w')
       | (Inr _, w') \<Rightarrow> initialize_start_loop tk c es w')"
    by (cases e rule: recv_event_cases) (auto simp: loop_simps split: if_splits)
qed simp

sublocale outbound_sends \<subseteq> finish_loop: waiting_loop tk queued live
  "initialize_finish_loop tk" finish_outcome "refusals finish_outcome" "on_success finish_outcome Running"
  "\<lambda>e. Inl (Io e)"
proof unfold_locales
  fix e :: recv_event and a c es w
  show "finish_outcome e = Some a \<Longrightarrow> initialize_finish_loop tk c (e # es) w
      = (Ready a, (on_success finish_outcome Running e c)\<lparr>receiver := es\<rparr>, w) \<and> refusals finish_outcome e = []"
    by (cases e rule: recv_event_cases) (auto simp: loop_simps split: if_splits)
  show "finish_outcome e = None \<Longrightarrow> refusals finish_outcome e = [] \<Longrightarrow>
      initialize_finish_loop tk c (e # es) w = initialize_finish_loop tk c es w"
    by (cases e rule: recv_event_cases) (auto simp: loop_simps split: if_splits)
  show "finish_outcome e = None \<Longrightarrow> refusals finish_outcome e \<noteq> [] \<Longrightarrow> \<exists>m. refusals finish_outcome e = [m] \<and>
      initialize_finish_loop tk c (e # es) w = (case conn_send tk m w of
         (Inl err, w') \<Rightarrow> (Ready (Inl (Io err)), c\<lparr>receiver := es\<rparr>, w')
       | (Inr _, w') \<Rightarrow> initialize_finish_loop tk c es w')"
    by (cases e rule: recv_event_cases) (auto simp: loop_simps split: if_splits)
qed simp

sublocale outbound_sends \<subseteq> response_loop: waiting_loop tk queued live
  "\<lambda>c es w. case send_request_loop i c es of (r, c') \<Rightarrow> (r, c', w)" "request_outcome i" "\<lambda>_. []" "\<lambda>_ c. c"
  "\<lambda>e. Inl (Io e)" for i
proof unfold_locales
  fix e :: recv_event and a c es and w :: "('a, 'b, 'c) world"
  show "request_outcome i e = Some a \<Longrightarrow> (case send_request_loop i c (e # es) of (r, c') \<Rightarrow> (r, c', w))
      = (Ready a, c\<lparr>receiver := es\<rparr>, w) \<and> [] = []"
    by (cases e rule: recv_event_cases) (auto simp: loop_simps split: if_splits)
  show "request_outcome i e = None \<Longrightarrow> [] = [] \<Longrightarrow> (case send_request_loop i c (e # es) of (r, c') \<Rightarrow> (r, c', w))
      = (case send_request_loop i c es of (r, c') \<Rightarrow> (r, c', w))"
    by (cases e rule: recv_event_cases) (auto simp: loop_simps split: if_splits)
qed simp_all

subsection \<open>Everything that can happen to a connection\<close>

text \<open>
  A state is a connection, its world and the tokens that \<open>route\<close> has handed out so far with the ids
  of their requests. A step is one call of the public interface, one atomic step of a task that
  holds a client sender, a run of the drain task as long as it lives (its end drops the guard of its
  token), or the arrival of input.
\<close>

type_synonym ('tw, 'ow, 'mw) conn_sys = "connection \<times> ('tw, 'ow, 'mw) world \<times> (request_id \<times> token) list"

fun handed :: "incoming_message \<Rightarrow> (request_id \<times> token) list" where
  "handed (IncomingRequest req t) = [(req_id req, t)]"
| "handed _ = []"

inductive conn_step ::
  "('tw, 'ow, 'mw) tokio \<Rightarrow> ('tw, 'ow, 'mw) conn_sys \<Rightarrow> ('tw, 'ow, 'mw) conn_sys \<Rightarrow> bool"
  for tk :: "('tw, 'ow, 'mw) tokio" where
  Arrive: "conn_step tk (c, w, hs) (c\<lparr>receiver := es\<rparr>, w, hs)"
| Route: "route tk c m w = (r, c', w') \<Longrightarrow> conn_step tk (c, w, hs) (c', w', handed r @ hs)"
| Complete: "incoming_complete (incoming (conn_queue c)) i = (ok, iq) \<Longrightarrow>
    conn_step tk (c, w, hs) (c\<lparr>conn_queue := (conn_queue c)\<lparr>incoming := iq\<rparr>\<rparr>, w, hs)"
| Cancel_in: "cancel_incoming tk c i w = (ok, w') \<Longrightarrow> conn_step tk (c, w, hs) (c, w', hs)"
| Register_out: "outgoing_register tk (outgoing (conn_queue c)) i (oneshots w) = (h, oq, ow) \<Longrightarrow>
    conn_step tk (c, w, hs) (c\<lparr>conn_queue := (conn_queue c)\<lparr>outgoing := oq\<rparr>\<rparr>, w\<lparr>oneshots := ow\<rparr>, hs)"
| Cancel_out: "conn_cancel tk c i w = (r, c', w') \<Longrightarrow> conn_step tk (c, w, hs) (c', w', hs)"
| Send: "conn_send tk m w = (r, w') \<Longrightarrow> conn_step tk (c, w, hs) (c, w', hs)"
| Sender: "conn_client_sender c w = (s, c', w') \<Longrightarrow> conn_step tk (c, w, hs) (c', w', hs)"
| Client: "conn_response_map c = Some m \<Longrightarrow> conn_step tk (c, w, hs) (c, client_step tk m x w, hs)"
| Start: "initialize_start tk c w = (r, c', w') \<Longrightarrow> conn_step tk (c, w, hs) (c', w', hs)"
| Finish: "initialize_finish tk c i v w = (r, c', w') \<Longrightarrow> conn_step tk (c, w, hs) (c', w', hs)"
| Request: "send_request tk c i m p w = (r, c', w') \<Longrightarrow> conn_step tk (c, w, hs) (c', w', hs)"
| Shutdown: "handle_shutdown tk c i w = (r, c', w') \<Longrightarrow> conn_step tk (c, w, hs) (c', w', hs)"
| Exit: "handle_exit c = (x, c') \<Longrightarrow> conn_step tk (c, w, hs) (c', w, hs)"
| Drain: "drain_task tk (conn_drain_alive c) gone rs w = (ms, ended, w') \<Longrightarrow>
    \<not> is_cancelled tk (conn_drain_alive c) (tokens w) \<Longrightarrow> conn_step tk (c, w, hs) (c, w', hs)"

inductive conn_reach ::
  "('tw, 'ow, 'mw) tokio \<Rightarrow> ('tw, 'ow, 'mw) conn_sys \<Rightarrow> ('tw, 'ow, 'mw) conn_sys \<Rightarrow> bool"
  for tk :: "('tw, 'ow, 'mw) tokio" where
  reach_refl: "conn_reach tk s s"
| reach_step: "conn_reach tk s s1 \<Longrightarrow> conn_step tk s1 s2 \<Longrightarrow> conn_reach tk s s2"

text \<open>What the calls leave alone.\<close>

definition outbound_only :: "('tw, 'ow, 'mw) world \<Rightarrow> ('tw, 'ow, 'mw) world \<Rightarrow> bool" where
  "outbound_only w w' \<longleftrightarrow> tokens w' = tokens w \<and> oneshots w' = oneshots w \<and> response_maps w' = response_maps w
     \<and> id_counters w' = id_counters w \<and> next_ref w' = next_ref w"

lemma outbound_only_refl [simp]: "outbound_only w w"
  by (simp add: outbound_only_def)

lemma outbound_only_trans: "outbound_only w w1 \<Longrightarrow> outbound_only w1 w2 \<Longrightarrow> outbound_only w w2"
  by (simp add: outbound_only_def)

definition same_conn :: "connection \<Rightarrow> connection \<Rightarrow> bool" where
  "same_conn c c' \<longleftrightarrow> conn_queue c' = conn_queue c \<and> conn_shutdown_token c' = conn_shutdown_token c
     \<and> conn_response_map c' = conn_response_map c \<and> conn_drain_alive c' = conn_drain_alive c"

lemma same_conn_simps [simp]:
  "same_conn c c" "same_conn c (c\<lparr>receiver := es\<rparr>)" "same_conn c (c\<lparr>conn_state := st\<rparr>)"
  "same_conn c (c\<lparr>receiver := es, conn_state := st\<rparr>)" "same_conn c (c\<lparr>conn_state := st, receiver := es\<rparr>)"
  by (simp_all add: same_conn_def)

lemma conn_send_frame: "conn_send tk m w = (r, w') \<Longrightarrow> outbound_only w w'"
  by (auto simp: conn_send_def outbound_send_def outbound_only_def split: prod.splits)

lemma init_start_loop_frame:
  assumes "initialize_start_loop tk c es w = (r, c', w')"
  shows "outbound_only w w' \<and> same_conn c c' \<and> conn_state c' \<in> {conn_state c, Initializing}"
  using assms
proof (induction es arbitrary: w)
  case (Cons e es)
  show ?case
  proof (cases e rule: recv_event_cases)
    case (Request req)
    obtain x w1 where s: "conn_send tk (not_initialized_response req) w = (x, w1)"
      by fastforce
    note sent = conn_send_frame [OF s]
    show ?thesis
      using Cons.prems Cons.IH [of w1] Request s sent
      by (cases x) (auto split: if_splits intro: outbound_only_trans)
  qed (use Cons in \<open>auto split: if_splits\<close>)
qed auto

lemma init_finish_loop_frame:
  assumes "initialize_finish_loop tk c es w = (r, c', w')"
  shows "outbound_only w w' \<and> same_conn c c' \<and> conn_state c' \<in> {conn_state c, Running}"
  using assms
proof (induction es arbitrary: w)
  case (Cons e es)
  show ?case
  proof (cases e rule: recv_event_cases)
    case (Request req)
    obtain x w1 where s: "conn_send tk (not_initialized_response req) w = (x, w1)"
      by fastforce
    note sent = conn_send_frame [OF s]
    show ?thesis
      using Cons.prems Cons.IH [of w1] Request s sent
      by (cases x) (auto split: if_splits intro: outbound_only_trans)
  qed (use Cons in \<open>auto split: if_splits\<close>)
qed auto

lemma send_request_loop_frame:
  assumes "send_request_loop i c es = (r, c')"
  shows "same_conn c c' \<and> conn_state c' = conn_state c"
  using assms
proof (induction es)
  case (Cons e es)
  then show ?case
    by (cases e rule: recv_event_cases) (auto split: if_splits)
qed auto

subsection \<open>The invariant of a connection\<close>

text \<open>
  The handed-out tokens are distinct children of the shutdown token, a pending incoming request has
  a token handed out for its id, and a connection that is shutting down has cancelled its shutdown
  token.
\<close>

definition tokens_inv ::
  "('tw, 'ow, 'mw) tokio \<Rightarrow> ('tw \<Rightarrow> token set) \<Rightarrow> ('tw \<Rightarrow> token \<Rightarrow> token \<Rightarrow> bool)
     \<Rightarrow> connection \<Rightarrow> 'tw \<Rightarrow> (request_id \<times> token) list \<Rightarrow> bool" where
  "tokens_inv tk known descends c tw hs \<longleftrightarrow>
     (let st = conn_shutdown_token c in
      st \<in> known tw \<and> (\<forall>a. descends tw st a \<longleftrightarrow> a = st) \<and> st \<notin> snd ` set hs \<and> distinct (map snd hs)
      \<and> (\<forall>t\<in>snd ` set hs. t \<in> known tw \<and> (\<forall>a. descends tw t a \<longleftrightarrow> a = t \<or> a = st))
      \<and> (\<forall>i t. in_pending (incoming (conn_queue c)) i = Some t \<longrightarrow> (i, t) \<in> set hs)
      \<and> (conn_state c = ShuttingDown \<longrightarrow> is_cancelled tk st tw))"

text \<open>The oneshot senders filed in the outgoing tracker and in the response map, together.\<close>

fun filed ::
  "connection \<Rightarrow> ('tw, 'ow, 'mw) world \<Rightarrow> request_id + request_id \<rightharpoonup> oneshot" where
  "filed c w (Inl i) = out_pending (outgoing (conn_queue c)) i"
| "filed c w (Inr i) = Option.bind (conn_response_map c) (\<lambda>m. response_maps w m i)"

lemma filed_eqI:
  "(\<And>i. filed c w (Inl i) = f (Inl i)) \<Longrightarrow> (\<And>i. filed c w (Inr i) = f (Inr i)) \<Longrightarrow> filed c w = f"
  by (rule ext) (metis old.sum.exhaust)

definition conn_inv ::
  "('tw, 'ow, 'mw) tokio \<Rightarrow> ('tw \<Rightarrow> token set) \<Rightarrow> ('tw \<Rightarrow> token \<Rightarrow> token \<Rightarrow> bool) \<Rightarrow> ('ow \<Rightarrow> oneshot set)
     \<Rightarrow> ('tw, 'ow, 'mw) conn_sys \<Rightarrow> bool" where
  "conn_inv tk known descends opened s \<longleftrightarrow>
     (case s of (c, w, hs) \<Rightarrow>
        tokens_inv tk known descends c (tokens w) hs \<and> senders_ok tk opened (filed c w) (oneshots w))"

lemma tokens_inv_same:
  assumes "tokens_inv tk known descends c tw hs" and "same_conn c c'"
    and "conn_state c' = ShuttingDown \<longrightarrow> is_cancelled tk (conn_shutdown_token c) tw"
  shows "tokens_inv tk known descends c' tw hs"
  using assms by (simp add: tokens_inv_def same_conn_def Let_def)

lemma filed_same: "same_conn c c' \<Longrightarrow> response_maps w' = response_maps w \<Longrightarrow> filed c' w' = filed c w"
  by (rule filed_eqI) (simp_all add: same_conn_def)

lemma filed_outgoing:
  assumes "out_pending oq = (out_pending (outgoing (conn_queue c)))(i := v)" and "response_maps w' = response_maps w"
  shows "filed (c\<lparr>conn_queue := (conn_queue c)\<lparr>outgoing := oq\<rparr>\<rparr>) w' = (filed c w)(Inl i := v)"
  using assms by (intro filed_eqI) simp_all

lemma filed_map:
  assumes "conn_response_map c = Some m" and "response_maps w' = (response_maps w)(m := (response_maps w m)(i := v))"
  shows "filed c w' = (filed c w)(Inr i := v)"
  using assms by (intro filed_eqI) simp_all

lemma filed_incoming [simp]:
  "filed (c\<lparr>conn_queue := (conn_queue c)\<lparr>incoming := iq\<rparr>\<rparr>) w = filed c w"
  by (rule filed_eqI) simp_all

context cancellation_tokens
begin

lemma cancel_tokens_inv:
  assumes "tokens_inv tk known descends c tw hs"
  shows "tokens_inv tk known descends c (token_cancel tk t tw) hs"
  using assms by (simp add: tokens_inv_def Let_def cancel_token)

lemma route_request_inv:
  assumes inv: "tokens_inv tk known descends c (tokens w) hs" and r: "route_request tk c req w = (r, c', w')"
  shows "tokens_inv tk known descends c' (tokens w') (handed r @ hs)"
proof -
  let ?st = "conn_shutdown_token c"
  obtain t tw where t: "child_token tk ?st (tokens w) = (t, tw)"
    by fastforce
  have out: "r = IncomingRequest req t" "tokens w' = tw" "conn_shutdown_token c' = ?st" "conn_state c' = conn_state c"
    "in_pending (incoming (conn_queue c')) = (in_pending (incoming (conn_queue c)))(req_id req \<mapsto> t)"
    using r t by (auto simp: route_request_def incoming_register_def Let_def)
  have st: "?st \<in> known (tokens w)" "\<And>a. descends (tokens w) ?st a \<longleftrightarrow> a = ?st"
    using inv by (auto simp: tokens_inv_def Let_def)
  have new: "t \<notin> known (tokens w)" "known tw = insert t (known (tokens w))"
    "is_cancelled tk ?st tw = is_cancelled tk ?st (tokens w)"
    "\<And>u a. descends tw u a \<longleftrightarrow> descends (tokens w) u a \<or> u = t \<and> (a = t \<or> a = ?st)"
    using new_child [OF t st(1)] st by auto
  have old: "u \<noteq> t" if "u \<in> known (tokens w)" for u
    using that new(1) by blast
  have fresh: "\<not> descends (tokens w) t a" for a
    using descends_known new(1) by blast
  show ?thesis
    using inv unfolding tokens_inv_def Let_def out handed.simps
    by (auto simp: new fresh dest: old)
qed

end

text \<open>Where \<open>route\<close> looks for the waiting receiver of a response: first the response map.\<close>

definition response_target ::
  "connection \<Rightarrow> ('tw, 'ow, 'mw) world \<Rightarrow> response \<Rightarrow> (request_id + request_id) option" where
  "response_target c w r =
     Option.bind (resp_id r) (\<lambda>i.
       if filed c w (Inr i) \<noteq> None then Some (Inr i)
       else if filed c w (Inl i) \<noteq> None then Some (Inl i) else None)"

definition keeps_incoming :: "connection \<Rightarrow> connection \<Rightarrow> bool" where
  "keeps_incoming c c' \<longleftrightarrow> incoming (conn_queue c') = incoming (conn_queue c) \<and> conn_state c' = conn_state c
     \<and> conn_shutdown_token c' = conn_shutdown_token c"

lemma tokens_inv_keeps:
  "tokens_inv tk known descends c tw hs \<Longrightarrow> keeps_incoming c c' \<Longrightarrow> tokens_inv tk known descends c' tw hs"
  by (simp add: tokens_inv_def keeps_incoming_def Let_def)

lemma route_response_shape:
  assumes "route_response tk c r w = (x, c', w')"
  shows "case response_target c w r of
      None \<Rightarrow> x = ResponseUnknown r \<and> c' = c \<and> w' = w
    | Some k \<Rightarrow> x = ResponseRouted \<and> filed c' w' = (filed c w)(k := None) \<and> keeps_incoming c c'
        \<and> tokens w' = tokens w \<and> outbound w' = outbound w
        \<and> (\<exists>h. filed c w k = Some h \<and> oneshots w' = oneshot_send tk h r (oneshots w))"
proof (cases "response_target c w r")
  case None
  then show ?thesis
    using assms by (auto simp: response_target_def route_response_def route_outgoing_def outgoing_is_pending_def
        response_map_contains_def split: option.splits if_splits Option.bind_splits)
next
  case (Some k)
  then obtain i where i: "resp_id r = Some i"
    and k: "k = Inr i \<and> filed c w (Inr i) \<noteq> None \<or> k = Inl i \<and> filed c w (Inr i) = None \<and> filed c w (Inl i) \<noteq> None"
    by (auto simp: response_target_def split: Option.bind_splits if_splits)
  from k show ?thesis
  proof (elim disjE conjE)
    assume kr: "k = Inr i" "filed c w (Inr i) \<noteq> None"
    then obtain m h where m: "conn_response_map c = Some m" "response_maps w m i = Some h"
      by (auto split: Option.bind_splits)
    then have "x = ResponseRouted \<and> c' = c \<and> response_map_deliver tk m i r w = (True, w')"
      using assms i by (auto simp: route_response_def response_map_contains_def response_map_deliver_def)
    then show ?thesis
      using Some kr m filed_map [OF m(1), of w' w i None]
      by (auto simp: response_map_deliver_def keeps_incoming_def)
  next
    assume kl: "k = Inl i" "filed c w (Inr i) = None" "filed c w (Inl i) \<noteq> None"
    then obtain h where h: "out_pending (outgoing (conn_queue c)) i = Some h"
      by auto
    have "route_outgoing tk c i r w = (x, c', w')"
      using assms i kl(2) by (auto simp: route_response_def response_map_contains_def split: option.splits)
    then show ?thesis
      using Some kl h filed_outgoing [of _ c i None w' w]
      by (auto simp: route_outgoing_def outgoing_is_pending_def outgoing_complete_def keeps_incoming_def)
  qed
qed

context oneshot_channels
begin

lemma unused_channel:
  assumes "senders_ok tk opened m w" and "oneshot_channel tk w = (h, w1)"
  shows "senders_ok tk opened m (oneshot_drop tk h w1)"
proof -
  have new: "h \<notin> opened w" "opened w1 = insert h (opened w)"
    "\<And>g. g \<in> opened w \<Longrightarrow> oneshot_poll tk g w1 = oneshot_poll tk g w"
    using new_channel [OF assms(2)] by auto
  then have "oneshot_poll tk g (oneshot_drop tk h w1) = oneshot_poll tk g w" if "g \<in> opened w" for g
    using that by (metis drop_other)
  then show ?thesis
    using assms(1) new by (auto simp: senders_ok_def)
qed

lemma route_response_inv:
  assumes "senders_ok tk opened (filed c w) (oneshots w)" and "route_response tk c r w = (x, c', w')"
  shows "senders_ok tk opened (filed c' w') (oneshots w')"
proof (cases "response_target c w r")
  case None
  then show ?thesis
    using assms(1) route_response_shape [OF assms(2)] by simp
next
  case (Some k)
  then show ?thesis
    using route_response_shape [OF assms(2)] take_sender [OF assms(1)] by fastforce
qed

lemma register_out_inv:
  assumes "senders_ok tk opened (filed c w) (oneshots w)"
    and "outgoing_register tk (outgoing (conn_queue c)) i (oneshots w) = (h, oq, ow)"
  shows "senders_ok tk opened (filed (c\<lparr>conn_queue := (conn_queue c)\<lparr>outgoing := oq\<rparr>\<rparr>) (w\<lparr>oneshots := ow\<rparr>)) ow"
proof -
  obtain ow1 where o: "oneshot_channel tk (oneshots w) = (h, ow1)"
    "ow = (case filed c w (Inl i) of Some old \<Rightarrow> oneshot_drop tk old ow1 | None \<Rightarrow> ow1)"
    "out_pending oq = (out_pending (outgoing (conn_queue c)))(i \<mapsto> h)"
    using assms(2) by (auto simp: outgoing_register_def Let_def split: prod.splits)
  show ?thesis
    using file_sender [OF assms(1) o(1,2)] filed_outgoing [OF o(3), of "w\<lparr>oneshots := ow\<rparr>" w] by simp
qed

lemma cancel_out_inv:
  assumes "senders_ok tk opened (filed c w) (oneshots w)" and "conn_cancel tk c i w = (r, c', w')"
  shows "senders_ok tk opened (filed c' w') (oneshots w') \<and> keeps_incoming c c' \<and> tokens w' = tokens w"
proof -
  obtain x w1 where s: "conn_send tk (Notification (cancel_notification i)) w = (x, w1)"
    by fastforce
  note f = conn_send_frame [OF s, unfolded outbound_only_def]
  have same: "filed c w1 = filed c w"
    using f by (intro filed_same) simp_all
  show ?thesis
  proof (cases "x = Inr () \<and> filed c w (Inl i) \<noteq> None")
    case True
    then obtain h where h: "out_pending (outgoing (conn_queue c)) i = Some h"
      by auto
    then show ?thesis
      using assms(2) s f True take_sender [OF assms(1), of "Inl i" h "oneshots w'" undefined Rx_closed]
        filed_outgoing [of _ c i None w' w]
      by (auto simp: conn_cancel_def outgoing_cancel_def keeps_incoming_def)
  next
    case False
    then show ?thesis
      using assms s f same filed_outgoing [of "outgoing (conn_queue c)" c i None w' w]
      by (cases x) (auto simp: conn_cancel_def outgoing_cancel_def keeps_incoming_def split: option.splits)
  qed
qed

lemma client_step_inv:
  assumes "senders_ok tk opened (filed c w) (oneshots w)" and m: "conn_response_map c = Some m"
  shows "senders_ok tk opened (filed c (client_step tk m x w)) (oneshots (client_step tk m x w))
    \<and> tokens (client_step tk m x w) = tokens w"
proof -
  have same: "filed c w' = filed c w" if "response_maps w' = response_maps w" for w' :: "('tw, 'ow, 'mw) world"
    using that by (intro filed_same) simp_all
  show ?thesis
  proof (cases x)
    case (OpNextId s)
    then show ?thesis
      using assms(1) next_id_world [OF prod.collapse [symmetric], of s w] same [of "client_step tk m x w"] by simp
  next
    case (OpTryRegister i)
    obtain r w' where t: "response_map_try_register tk m i w = (r, w')"
      by fastforce
    then show ?thesis
    proof (cases rule: try_register_cases)
      case (1 h ow)
      then show ?thesis
        using OpTryRegister t m file_sender [OF assms(1) 1(2) refl, of "Inr i"] filed_map [OF m, of w' w i "Some h"]
        by simp
    next
      case (2 h ow)
      then show ?thesis
        using OpTryRegister t unused_channel [OF assms(1) 2(2)] same [of w'] by simp
    qed
  next
    case (OpDeliver i r)
    let ?w' = "client_step tk m x w"
    show ?thesis
    proof (cases "response_maps w m i")
      case (Some h)
      then have h: "filed c w (Inr i) = Some h" "oneshots ?w' = oneshot_send tk h r (oneshots w)"
        "response_maps ?w' = (response_maps w)(m := (response_maps w m)(i := None))" "tokens ?w' = tokens w"
        using OpDeliver m by (simp_all add: response_map_deliver_def)
      then show ?thesis
        using take_sender [OF assms(1) h(1), of "oneshots ?w'" r "Rx_value r"] filed_map [OF m h(3)] by simp
    qed (use assms(1) OpDeliver in \<open>simp add: response_map_deliver_def\<close>)
  next
    case (OpDropId i)
    let ?w' = "client_step tk m x w"
    show ?thesis
    proof (cases "response_maps w m i")
      case (Some h)
      then have h: "filed c w (Inr i) = Some h" "oneshots ?w' = oneshot_drop tk h (oneshots w)"
        "response_maps ?w' = (response_maps w)(m := (response_maps w m)(i := None))" "tokens ?w' = tokens w"
        using OpDropId m by (simp_all add: response_map_cancel_def)
      then show ?thesis
        using take_sender [OF assms(1) h(1), of "oneshots ?w'" undefined Rx_closed] filed_map [OF m h(3)] by simp
    qed (use assms(1) OpDropId in \<open>simp add: response_map_cancel_def\<close>)
  next
    case (OpSend y)
    then show ?thesis
      using assms(1) outbound_send_world [OF prod.collapse [symmetric], of tk y w] same [of "client_step tk m x w"] by simp
  qed
qed

end

lemma drain_task_frame:
  assumes "drain_task tk alive gone rs w = (ms, ended, w')"
  shows "oneshots w' = oneshots w \<and> response_maps w' = response_maps w
    \<and> tokens w' = (if ended then token_cancel tk alive (tokens w) else tokens w)"
  using assms
proof (induction rs arbitrary: w ms ended w')
  case (Cons r rs)
  obtain m mw where m: "mpsc_recv tk (outbound w) = (m, mw)"
    by fastforce
  obtain ms1 e1 w1 where d: "drain_task tk alive gone rs (w\<lparr>outbound := mw\<rparr>) = (ms1, e1, w1)"
    by (metis prod_cases3)
  show ?case
    using Cons.prems Cons.IH [OF d] m d
    by (cases m; cases r) (auto simp: drain_exit_def split: if_splits)
qed simp

lemma handle_shutdown_shape:
  assumes "handle_shutdown tk c i w = (r, c', w')"
  shows "c' = c\<lparr>conn_state := ShuttingDown\<rparr> \<and> tokens w' = token_cancel tk (conn_shutdown_token c) (tokens w)
    \<and> oneshots w' = oneshots w \<and> response_maps w' = response_maps w"
proof -
  let ?w1 = "w\<lparr>tokens := token_cancel tk (conn_shutdown_token c) (tokens w)\<rparr>"
  obtain x w2 where s: "conn_send tk (Response (response_ok i JNull)) ?w1 = (x, w2)"
    by fastforce
  show ?thesis
    using assms s conn_send_frame [OF s] by (cases x) (auto simp: handle_shutdown_def outbound_only_def Let_def)
qed

lemma client_sender_shape:
  assumes "conn_client_sender c w = (s, c', w')"
  shows "filed c' w' = filed c w \<and> keeps_incoming c c' \<and> tokens w' = tokens w \<and> oneshots w' = oneshots w
    \<and> outbound w' = outbound w \<and> conn_response_map c' = Some (cs_response_map s) \<and> counter_ok s w'
    \<and> cs_drain_alive s = conn_drain_alive c"
proof (cases "conn_response_map c")
  case (Some m)
  then have out: "c' = c" "response_maps w' = response_maps w" "tokens w' = tokens w" "oneshots w' = oneshots w"
    "outbound w' = outbound w" "cs_response_map s = m" "cs_drain_alive s = conn_drain_alive c"
    "id_counters w' (cs_id_counter s) = 1"
    using assms by (auto simp: conn_client_sender_def client_sender_new_def)
  then show ?thesis
    using Some filed_same [of c c w' w] by (simp add: keeps_incoming_def counter_ok_def i32_max_def)
next
  case None
  then have out: "c' = c\<lparr>conn_response_map := Some (next_ref w)\<rparr>" "response_maps w' (next_ref w) = Map.empty"
    "tokens w' = tokens w" "oneshots w' = oneshots w" "outbound w' = outbound w" "cs_response_map s = next_ref w"
    "cs_drain_alive s = conn_drain_alive c" "id_counters w' (cs_id_counter s) = 1"
    using assms by (auto simp: conn_client_sender_def client_sender_new_def response_map_new_def Let_def)
  moreover have "filed c' w' = filed c w"
    using None out(1,2) by (intro filed_eqI) simp_all
  ultimately show ?thesis
    by (simp add: keeps_incoming_def counter_ok_def i32_max_def)
qed

lemma route_notification_shape:
  assumes "route_notification tk c n w = (r, c', w')"
  shows "c' = c \<and> handed r = [] \<and> (w' = w \<or> (\<exists>t. w' = w\<lparr>tokens := token_cancel tk t (tokens w)\<rparr>))"
  using assms
  by (auto simp: route_notification_def incoming_cancel_def split: if_splits option.splits)

lemma start_shape:
  "initialize_start tk c w = (r, c', w') \<Longrightarrow> outbound_only w w' \<and> same_conn c c' \<and> conn_state c' \<in> {conn_state c, Initializing}"
  unfolding initialize_start_def by (rule init_start_loop_frame)

lemma finish_shape:
  assumes "initialize_finish tk c i v w = (r, c', w')"
  shows "outbound_only w w' \<and> same_conn c c' \<and> conn_state c' \<in> {conn_state c, Running}"
proof -
  obtain x w1 where s: "conn_send tk (Response (response_ok i v)) w = (x, w1)"
    by fastforce
  show ?thesis
    using assms s conn_send_frame [OF s] init_finish_loop_frame [of tk c "receiver c" w1 r c' w']
    by (cases x) (auto simp: initialize_finish_def intro: outbound_only_trans)
qed

lemma send_request_shape:
  assumes "send_request tk c i m p w = (r, c', w')"
  shows "outbound_only w w' \<and> same_conn c c' \<and> conn_state c' = conn_state c"
proof -
  obtain x w1 where s: "conn_send tk (Request (request_new i m p)) w = (x, w1)"
    by fastforce
  show ?thesis
    using assms s conn_send_frame [OF s] send_request_loop_frame [of i c "receiver c" r c']
    by (cases x) (auto simp: send_request_def split: prod.splits)
qed

context tokio_runtime
begin

abbreviation inv :: "('tw, 'ow, 'mw) conn_sys \<Rightarrow> bool" where
  "inv \<equiv> conn_inv tk known descends opened"

text \<open>A call that only sends keeps the invariant unless it enters \<open>ShuttingDown\<close>.\<close>

lemma quiet_call_inv:
  assumes "inv (c, w, hs)" and "outbound_only w w'" and "same_conn c c'"
    and "conn_state c' = ShuttingDown \<longrightarrow> conn_state c = ShuttingDown"
  shows "inv (c', w', hs)"
proof -
  have "filed c' w' = filed c w"
    using assms(2,3) by (intro filed_same) (simp_all add: outbound_only_def)
  moreover have t: "tokens_inv tk known descends c (tokens w) hs"
    using assms(1) by (simp add: conn_inv_def)
  then have "conn_state c = ShuttingDown \<longrightarrow> is_cancelled tk (conn_shutdown_token c) (tokens w)"
    unfolding tokens_inv_def Let_def by blast
  then have "tokens_inv tk known descends c' (tokens w) hs"
    using assms(4) by (intro tokens_inv_same [OF t assms(3)]) blast
  ultimately show ?thesis
    using assms(1,2) by (simp add: conn_inv_def outbound_only_def)
qed

lemma cancel_inv:
  assumes "inv (c, w, hs)" and "tokens w' = token_cancel tk t (tokens w)"
    and "oneshots w' = oneshots w" and "response_maps w' = response_maps w"
  shows "inv (c, w', hs)"
proof -
  have "filed c w' = filed c w"
    using assms(4) by (intro filed_same) simp_all
  then show ?thesis
    using assms cancel_tokens_inv by (simp add: conn_inv_def)
qed

lemma route_inv:
  assumes "inv (c, w, hs)" and "route tk c m w = (r, c', w')"
  shows "inv (c', w', handed r @ hs)"
proof (cases m)
  case (Request req)
  then have "tokens_inv tk known descends c' (tokens w') (handed r @ hs)"
    using assms route_request_inv [of c w hs req r c' w'] by (simp add: conn_inv_def)
  moreover have "oneshots w' = oneshots w" "response_maps w' = response_maps w" "filed c' w = filed c w"
    using assms(2) Request by (auto simp: route_request_def Let_def split: prod.splits)
  moreover have "filed c' w' = filed c' w"
    using \<open>response_maps w' = response_maps w\<close> by (intro filed_same) simp_all
  ultimately show ?thesis
    using assms(1) by (simp add: conn_inv_def)
next
  case (Notification n)
  then have shape: "c' = c" "handed r = []" "w' = w \<or> (\<exists>t. w' = w\<lparr>tokens := token_cancel tk t (tokens w)\<rparr>)"
    using assms(2) route_notification_shape [of tk c n w r c' w'] by simp_all
  then show ?thesis
    using assms(1) cancel_inv [OF assms(1)] by auto
next
  case (Response r')
  then have rr: "route_response tk c r' w = (r, c', w')"
    using assms(2) by simp
  have "keeps_incoming c c' \<and> tokens w' = tokens w \<and> handed r = []"
    using route_response_shape [OF rr]
    by (cases "response_target c w r'") (auto simp: keeps_incoming_def)
  then show ?thesis
    using assms(1) route_response_inv [OF _ rr] tokens_inv_keeps by (auto simp: conn_inv_def)
qed

lemma complete_inv:
  assumes "inv (c, w, hs)" and "incoming_complete (incoming (conn_queue c)) i = (ok, iq)"
  shows "inv (c\<lparr>conn_queue := (conn_queue c)\<lparr>incoming := iq\<rparr>\<rparr>, w, hs)"
  using assms by (auto simp: conn_inv_def tokens_inv_def incoming_complete_def Let_def split: if_splits)

lemma shutdown_inv:
  assumes "inv (c, w, hs)" and "handle_shutdown tk c i w = (r, c', w')"
  shows "inv (c', w', hs)"
proof -
  note shape = handle_shutdown_shape [OF assms(2)]
  have "inv (c, w', hs)"
    using cancel_inv [OF assms(1)] shape by blast
  moreover have "is_cancelled tk (conn_shutdown_token c) (tokens w')"
    using assms(1) shape by (simp add: conn_inv_def tokens_inv_def Let_def cancel_token)
  moreover have "filed c' w' = filed c w'"
    using shape by (intro filed_same) simp_all
  ultimately show ?thesis
    using shape tokens_inv_same [of tk known descends c _ hs c'] by (simp add: conn_inv_def)
qed

lemma conn_step_inv:
  assumes "conn_step tk s s'" and "inv s"
  shows "inv s'"
  using assms
proof (induction rule: conn_step.induct)
  case (Arrive c w hs es)
  then show ?case
    by (rule quiet_call_inv) simp_all
next
  case (Route c m w r c' w' hs)
  then show ?case
    using route_inv by blast
next
  case (Complete c i ok iq w hs)
  then show ?case
    using complete_inv by blast
next
  case (Cancel_in c i w ok w' hs)
  then show ?case
    using cancel_inv [OF Cancel_in(2)]
    by (auto simp: cancel_incoming_def incoming_cancel_def split: option.splits)
next
  case (Register_out c i w h oq ow hs)
  then show ?case
    using register_out_inv [of c w i h oq ow] by (auto simp: conn_inv_def tokens_inv_def Let_def)
next
  case (Cancel_out c i w r c' w' hs)
  then show ?case
    using cancel_out_inv [of c w i r c' w'] tokens_inv_keeps by (auto simp: conn_inv_def)
next
  case (Send m w r w' c hs)
  then show ?case
    using quiet_call_inv conn_send_frame by (metis same_conn_simps(1))
next
  case (Sender c w s c' w' hs)
  then show ?case
    using client_sender_shape [OF Sender(1)] tokens_inv_keeps by (auto simp: conn_inv_def)
next
  case (Client c m w hs x)
  then show ?case
    using client_step_inv [of c w m x] by (simp add: conn_inv_def)
next
  case (Start c w r c' w' hs)
  then show ?case
    using quiet_call_inv [OF Start(2)] start_shape [OF Start(1)] by auto
next
  case (Finish c i v w r c' w' hs)
  then show ?case
    using quiet_call_inv [OF Finish(2)] finish_shape [OF Finish(1)] by auto
next
  case (Request c i m p w r c' w' hs)
  then show ?case
    using quiet_call_inv [OF Request(2)] send_request_shape [OF Request(1)] by auto
next
  case (Shutdown c i w r c' w' hs)
  then show ?case
    using shutdown_inv by blast
next
  case (Exit c x c' w hs)
  then show ?case
    by (intro quiet_call_inv [OF Exit(2)]) (auto simp: handle_exit_def Let_def)
next
  case (Drain c gone rs w ms ended w' hs)
  then show ?case
    using drain_task_frame [OF Drain(1)] cancel_inv [OF Drain(3), of w' "conn_drain_alive c"]
      filed_same [of c c w' w]
    by (cases ended) (simp_all add: conn_inv_def)
qed

lemma conn_reach_inv: "conn_reach tk s s' \<Longrightarrow> inv s \<Longrightarrow> inv s'"
  by (induction rule: conn_reach.induct) (auto intro: conn_step_inv)

end

subsection \<open>What the invariant gives\<close>

text \<open>How a step changes the tokens.\<close>

lemma conn_step_tokens:
  assumes "conn_step tk (c, w, hs) (c', w', hs')"
  shows "conn_shutdown_token c' = conn_shutdown_token c
    \<and> (hs' = hs \<and> (tokens w' = tokens w \<or> (\<exists>t. tokens w' = token_cancel tk t (tokens w)))
       \<or> (\<exists>i t. hs' = (i, t) # hs \<and> child_token tk (conn_shutdown_token c) (tokens w) = (t, tokens w')))"
  using assms
proof (cases rule: conn_step.cases)
  case (Route m r)
  show ?thesis
  proof (cases m)
    case (Request req)
    then show ?thesis
      using Route by (auto simp: route_request_def Let_def split: prod.splits)
  next
    case (Notification n)
    then show ?thesis
      using Route route_notification_shape [of tk c n w r c' w'] by auto
  next
    case (Response x)
    then show ?thesis
      using Route route_response_shape [of tk c x w r c' w']
      by (cases "response_target c w x") (auto simp: keeps_incoming_def)
  qed
next
  case (Cancel_in i ok)
  then show ?thesis
    by (auto simp: cancel_incoming_def incoming_cancel_def split: option.splits)
next
  case (Cancel_out i r)
  have "keeps_incoming c c' \<and> tokens w' = tokens w"
    using Cancel_out conn_send_frame [of tk "Notification (cancel_notification i)" w]
    by (auto simp: conn_cancel_def keeps_incoming_def outbound_only_def split: prod.splits sum.splits)
  with Cancel_out show ?thesis
    by (simp add: keeps_incoming_def)
next
  case (Send m r)
  then show ?thesis
    using conn_send_frame [of tk m w] by (simp add: outbound_only_def)
next
  case (Sender s)
  then show ?thesis
    using client_sender_shape [of c w s c' w'] by (simp add: keeps_incoming_def)
next
  case (Client m x)
  then have "tokens w' = tokens w"
    using next_id_world [OF prod.collapse [symmetric], of _ w]
      outbound_send_world [OF prod.collapse [symmetric], of tk _ w]
    by (cases x) (auto simp: response_map_try_register_def response_map_deliver_def response_map_cancel_def Let_def
        split: prod.splits option.splits)
  with Client show ?thesis
    by simp
next
  case (Start r)
  then show ?thesis
    using start_shape [of tk c w r c' w'] by (simp add: outbound_only_def same_conn_def)
next
  case (Finish i v r)
  then show ?thesis
    using finish_shape [of tk c i v w r c' w'] by (simp add: outbound_only_def same_conn_def)
next
  case (Request i m p r)
  then show ?thesis
    using send_request_shape [of tk c i m p w r c' w'] by (simp add: outbound_only_def same_conn_def)
next
  case (Shutdown i r)
  then show ?thesis
    using handle_shutdown_shape [of tk c i w r c' w'] by auto
next
  case (Exit x)
  then show ?thesis
    by (auto simp: handle_exit_def Let_def)
next
  case (Drain gone rs ms ended)
  then show ?thesis
    using drain_task_frame [of tk "conn_drain_alive c" gone rs w ms ended w'] by (cases ended) auto
qed auto

context tokio_runtime
begin

definition all_cancelled :: "('tw, 'ow, 'mw) conn_sys \<Rightarrow> bool" where
  "all_cancelled s \<longleftrightarrow> (case s of (c, w, hs) \<Rightarrow>
     is_cancelled tk (conn_shutdown_token c) (tokens w) \<and> (\<forall>t\<in>snd ` set hs. is_cancelled tk t (tokens w)))"

lemma all_cancelled_step:
  assumes "inv s" and "all_cancelled s" and "conn_step tk s s'"
  shows "all_cancelled s'"
proof -
  obtain c w hs c' w' hs' where s: "s = (c, w, hs)" "s' = (c', w', hs')"
    by (metis prod_cases3)
  have known: "conn_shutdown_token c \<in> known (tokens w)" "\<forall>t\<in>snd ` set hs. t \<in> known (tokens w)"
    using assms(1) by (auto simp: s conn_inv_def tokens_inv_def Let_def)
  show ?thesis
    using conn_step_tokens [OF assms(3) [unfolded s]] assms(2) known new_child [of "conn_shutdown_token c" "tokens w"]
    by (fastforce simp: s all_cancelled_def cancel_token)
qed

lemma all_cancelled_reach:
  assumes "conn_reach tk s s'" and "inv s" and "all_cancelled s"
  shows "all_cancelled s'"
  using assms
proof (induction rule: conn_reach.induct)
  case (reach_step s s1 s2)
  then show ?case
    using all_cancelled_step [of s1 s2] conn_reach_inv by blast
qed

lemma shutdown_all_cancelled:
  assumes "inv (c, w, hs)" and "handle_shutdown tk c i w = (r, c', w')"
  shows "all_cancelled (c', w', hs)"
  using assms(1) handle_shutdown_shape [OF assms(2)]
  by (auto simp: all_cancelled_def conn_inv_def tokens_inv_def Let_def cancel_token)

lemma connection_new_inv:
  assumes "connection_new tk split framed_new io w = (c, w')"
  shows "inv (c, w', [])"
proof -
  obtain a tw1 st tw2 where t: "token_new tk (tokens w) = (a, tw1)" "token_new tk tw1 = (st, tw2)"
    by fastforce
  have out: "conn_shutdown_token c = st" "tokens w' = tw2" "conn_queue c = request_queue_new"
    "conn_state c = Uninitialized" "conn_response_map c = None"
    using assms t by (auto simp: connection_new_def from_transport_def spawn_drain_task_def lifecycle_default_def
        Let_def split: prod.splits)
  have "st \<notin> known tw1" "known tw2 = insert st (known tw1)"
    "\<And>u x. descends tw2 u x \<longleftrightarrow> descends tw1 u x \<or> u = st \<and> x = st"
    using new_token [OF t(2)] by blast+
  then have "st \<in> known tw2" "\<And>x. descends tw2 st x \<longleftrightarrow> x = st"
    using descends_known by blast+
  moreover have "filed c w' = Map.empty"
    using out(3,5) by (intro filed_eqI) (simp_all add: request_queue_new_def outgoing_new_def)
  ultimately show ?thesis
    using out by (simp add: conn_inv_def tokens_inv_def Let_def request_queue_new_def incoming_new_def)
qed

lemma fresh_connection_inv:
  assumes "connection_new tk split framed_new io w0 = (c0, w1)" and "conn_reach tk (c0, w1, []) s"
  shows "inv s"
  using conn_reach_inv [OF assms(2) connection_new_inv [OF assms(1)]] .

end

subsection \<open>Properties: cancellation\<close>

text \<open>
  C7. Shutdown reaches every request: once a connection handles \<open>shutdown\<close>, every token that
  \<open>route\<close> has handed out is cancelled and stays so, and so is every token it hands out later, in
  every sequence of calls and steps of other tasks.
\<close>

theorem shutdown_cancels_every_request:
  assumes "tokio_runtime tk known descends opened queued live"
    and "connection_new tk split framed_new io w0 = (c0, w1)" and "conn_reach tk (c0, w1, []) (c, w, hs)"
    and "handle_shutdown tk c i w = (r, c', w')" and "conn_reach tk (c', w', hs) (c'', w'', hs'')"
  shows "(\<forall>(j, t)\<in>set hs''. is_cancelled tk t (tokens w''))
    \<and> is_cancelled tk (shutdown_token c'') (tokens w'') \<and> on_shutdown tk c'' w'' = Ready ()"
proof -
  note rt = assms(1)
  have "conn_inv tk known descends opened (c, w, hs)"
    using tokio_runtime.fresh_connection_inv [OF rt assms(2,3)] .
  then have "tokio_runtime.all_cancelled tk (c'', w'', hs'')"
    using tokio_runtime.all_cancelled_reach [OF rt assms(5)] tokio_runtime.shutdown_inv [OF rt _ assms(4)]
      tokio_runtime.shutdown_all_cancelled [OF rt _ assms(4)] by blast
  then show ?thesis
    by (auto simp: tokio_runtime.all_cancelled_def [OF rt] shutdown_token_def on_shutdown_def)
qed

text \<open>A fresh connection over the reference runtime that has routed one request.\<close>

definition ref_conn :: connection where
  "ref_conn = \<lparr>receiver = [], conn_queue = request_queue_new, conn_state = Uninitialized,
     conn_shutdown_token = 2, conn_response_map = None, conn_drain_alive = 1\<rparr>"

definition ref_conn_world :: "(ref_tokens, oneshot_result list, message list \<times> bool) world" where
  "ref_conn_world = ref_world\<lparr>tokens := [([], False), ([], False), ([], False)], outbound := ([], True)\<rparr>"

definition ref_hover :: request where
  "ref_hover = request_new (IntegerId 1) ''hover'' None"

definition ref_conn1 :: connection where
  "ref_conn1 = ref_conn\<lparr>conn_queue := request_queue_new\<lparr>incoming := \<lparr>in_pending = [IntegerId 1 \<mapsto> 3]\<rparr>\<rparr>\<rparr>"

definition ref_world1 :: "(ref_tokens, oneshot_result list, message list \<times> bool) world" where
  "ref_world1 = ref_conn_world\<lparr>tokens := [([], False), ([], False), ([], False), ([2], False)]\<rparr>"

lemma ref_new: "connection_new ref_tokio (\<lambda>_. ((), [])) (\<lambda>_ _. ()) () ref_world = (ref_conn, ref_conn_world)"
  by (simp add: connection_new_def from_transport_def spawn_drain_task_def ref_tokio_def ref_world_def
      ref_conn_def ref_conn_world_def lifecycle_default_def)

lemma ref_route: "route ref_tokio ref_conn (Request ref_hover) ref_conn_world
    = (IncomingRequest ref_hover 3, ref_conn1, ref_world1)"
  by (simp add: route_request_def ref_tokio_def ref_conn_def ref_conn1_def ref_conn_world_def ref_world1_def
      ref_world_def incoming_register_def request_queue_new_def incoming_new_def ref_hover_def request_new_def eval_nat_numeral)

lemma ref_reach: "conn_reach ref_tokio (ref_conn, ref_conn_world, []) (ref_conn1, ref_world1, [(IntegerId 1, 3)])"
  using reach_step [OF reach_refl Route [OF ref_route]] by (simp add: ref_hover_def request_new_def)

theorem shutdown_cancels_every_request_witness:
  "is_cancelled ref_tokio 3 (tokens (snd (snd (handle_shutdown ref_tokio ref_conn1 (IntegerId 9) ref_world1))))"
proof -
  have "handle_shutdown ref_tokio ref_conn1 (IntegerId 9) ref_world1
      = (fst (handle_shutdown ref_tokio ref_conn1 (IntegerId 9) ref_world1),
         fst (snd (handle_shutdown ref_tokio ref_conn1 (IntegerId 9) ref_world1)),
         snd (snd (handle_shutdown ref_tokio ref_conn1 (IntegerId 9) ref_world1)))"
    by simp
  from shutdown_cancels_every_request [OF ref_rt.tokio_runtime_axioms ref_new ref_reach this reach_refl]
  show ?thesis
    by simp
qed

text \<open>
  C11. A \<open>$/cancelRequest\<close> cancels the request it names and no other: of all handed-out tokens
  exactly the one pending under the id is newly cancelled, the shutdown token is not affected,
  and the connection is unchanged.
\<close>

theorem cancel_request_hits_only_its_target:
  assumes "tokio_runtime tk known descends opened queued live"
    and "connection_new tk split framed_new io w0 = (c0, w1)" and "conn_reach tk (c0, w1, []) (c, w, hs)"
    and "notif_method n = ''$/cancelRequest''" and "parse_cancel_params (notif_params n) = Some i"
    and "route tk c (Notification n) w = (r, c', w')"
  shows "r = CancelHandled \<and> c' = c
    \<and> (\<forall>(j, t)\<in>set hs. is_cancelled tk t (tokens w')
         \<longleftrightarrow> is_cancelled tk t (tokens w) \<or> incoming_get_token (incoming (conn_queue c)) i = Some t)
    \<and> is_cancelled tk (shutdown_token c) (tokens w') = is_cancelled tk (shutdown_token c) (tokens w)"
proof -
  note rt = assms(1)
  note ct = tokio_runtime.axioms(1) [OF rt]
  have "conn_inv tk known descends opened (c, w, hs)"
    using tokio_runtime.fresh_connection_inv [OF rt assms(2,3)] .
  then have t: "tokens_inv tk known descends c (tokens w) hs"
    by (simp add: conn_inv_def)
  have out: "r = CancelHandled" "c' = c" "tokens w' = snd (incoming_cancel tk (incoming (conn_queue c)) i (tokens w))"
    using assms(4-6) by (auto simp: route_notification_def cancel_request_method_def)
  have inv: "conn_shutdown_token c \<notin> snd ` set hs" "\<And>a. descends (tokens w) (conn_shutdown_token c) a \<longleftrightarrow> a = conn_shutdown_token c"
    "\<And>t a. t \<in> snd ` set hs \<Longrightarrow> descends (tokens w) t a \<longleftrightarrow> a = t \<or> a = conn_shutdown_token c"
    "\<And>i t. in_pending (incoming (conn_queue c)) i = Some t \<Longrightarrow> t \<in> snd ` set hs"
    using t unfolding tokens_inv_def Let_def by (blast, blast, blast, force)
  show ?thesis
  proof (cases "in_pending (incoming (conn_queue c)) i")
    case None
    then show ?thesis
      using out by (simp add: incoming_cancel_def incoming_get_token_def)
  next
    case (Some u)
    have "t \<in> snd ` set hs" if "(j, t) \<in> set hs" for j t
      using that by force
    then show ?thesis
      using out Some inv(1,2) inv(3) inv(4) [OF Some]
      by (auto simp: incoming_cancel_def incoming_get_token_def shutdown_token_def
          cancellation_tokens.cancel_token [OF ct])
  qed
qed

theorem cancel_request_hits_only_its_target_witness:
  "is_cancelled ref_tokio 3 (tokens (snd (snd
     (route ref_tokio ref_conn1 (Notification (cancel_notification (IntegerId 1))) ref_world1))))"
proof -
  have p: "notif_method (cancel_notification i) = ''$/cancelRequest''"
    "parse_cancel_params (notif_params (cancel_notification i)) = Some i" for i
    by (simp_all add: cancel_notification_def notification_new_def cancel_request_method_def
        parse_cancel_params_def value_get_def request_id_serialize_def i32_deserialize_as_i64 [symmetric]
        i32_deserialize_number split: request_id.splits)
  from cancel_request_hits_only_its_target [OF ref_rt.tokio_runtime_axioms ref_new ref_reach p, OF triple_collapse]
  show ?thesis
    by (auto simp: incoming_get_token_def ref_conn1_def)
qed

text \<open>
  C25. A routed request is tracked: it gets a token never handed out before, pending under its id,
  cancelled exactly when the connection has been shut down; other ids keep their tokens.
\<close>

theorem routed_request_is_tracked:
  assumes "tokio_runtime tk known descends opened queued live"
    and "connection_new tk split framed_new io w0 = (c0, w1)" and "conn_reach tk (c0, w1, []) (c, w, hs)"
    and "route tk c (Request req) w = (r, c', w')"
  shows "\<exists>t. r = IncomingRequest req t \<and> t \<notin> snd ` set hs
    \<and> is_cancelled tk t (tokens w') = is_cancelled tk (shutdown_token c) (tokens w)
    \<and> (\<forall>j. incoming_get_token (incoming (conn_queue c')) j
         = (if j = req_id req then Some t else incoming_get_token (incoming (conn_queue c)) j))"
proof -
  have "conn_inv tk known descends opened (c, w, hs)"
    using tokio_runtime.fresh_connection_inv [OF assms(1-3)] .
  then have known: "conn_shutdown_token c \<in> known (tokens w)" "snd ` set hs \<subseteq> known (tokens w)"
    by (auto simp: conn_inv_def tokens_inv_def Let_def)
  obtain t tw where t: "child_token tk (conn_shutdown_token c) (tokens w) = (t, tw)"
    by fastforce
  have "t \<notin> known (tokens w)" "is_cancelled tk t tw = is_cancelled tk (conn_shutdown_token c) (tokens w)"
    using cancellation_tokens.new_child [OF tokio_runtime.axioms(1) [OF assms(1)] t known(1)] by blast+
  then show ?thesis
    using assms(4) t known(2)
    by (auto simp: route_request_def incoming_register_def incoming_get_token_def shutdown_token_def Let_def)
qed

theorem routed_request_is_tracked_witness:
  "\<exists>t. fst (route ref_tokio ref_conn1 (Request ref_hover) ref_world1) = IncomingRequest ref_hover t \<and> t \<noteq> 3"
  using routed_request_is_tracked [OF ref_rt.tokio_runtime_axioms ref_new ref_reach triple_collapse] by auto

text \<open>
  C40. A second request under a pending id takes the place of the first, whose token can then no
  longer be cancelled by \<open>$/cancelRequest\<close>.
\<close>

theorem duplicate_id_detaches_first_token:
  assumes "tokio_runtime tk known descends opened queued live"
    and "connection_new tk split framed_new io w0 = (c0, w1)" and "conn_reach tk (c0, w1, []) (c, w, hs)"
    and "incoming_get_token (incoming (conn_queue c)) (req_id req) = Some t"
    and "route tk c (Request req) w = (r, c', w')"
    and "notif_method n = ''$/cancelRequest''" and "parse_cancel_params (notif_params n) = Some (req_id req)"
    and "route tk c' (Notification n) w' = (r', c'', w'')"
  shows "r' = CancelHandled \<and> is_cancelled tk t (tokens w'') = is_cancelled tk t (tokens w)"
proof -
  note ct = tokio_runtime.axioms(1) [OF assms(1)]
  have "conn_inv tk known descends opened (c, w, hs)"
    using tokio_runtime.fresh_connection_inv [OF assms(1-3)] .
  then have inv: "conn_shutdown_token c \<in> known (tokens w)" "t \<in> known (tokens w)"
    using assms(4) by (force simp: conn_inv_def tokens_inv_def Let_def incoming_get_token_def)+
  obtain u tw where u: "child_token tk (conn_shutdown_token c) (tokens w) = (u, tw)"
    by fastforce
  note new = cancellation_tokens.new_child [OF ct u inv(1)]
  have out: "tokens w' = tw" "in_pending (incoming (conn_queue c')) (req_id req) = Some u"
    using assms(5) u by (auto simp: route_request_def incoming_register_def Let_def)
  have "tokens w'' = token_cancel tk u tw \<and> r' = CancelHandled"
    using assms(6-8) out by (auto simp: route_notification_def cancel_request_method_def incoming_cancel_def)
  moreover have "\<not> descends tw t u"
    using new inv(2) cancellation_tokens.descends_known [OF ct, of "tokens w" t u] by auto
  ultimately show ?thesis
    using new inv(2) by (simp add: cancellation_tokens.cancel_token [OF ct])
qed

lemma cancel_notification_params:
  "notif_method (cancel_notification i) = ''$/cancelRequest''"
  "parse_cancel_params (notif_params (cancel_notification i)) = Some i"
  by (simp_all add: cancel_notification_def notification_new_def cancel_request_method_def
      parse_cancel_params_def value_get_def request_id_serialize_def i32_deserialize_as_i64 [symmetric]
      i32_deserialize_number split: request_id.splits)

theorem duplicate_id_detaches_first_token_witness:
  "\<not> is_cancelled ref_tokio 3 (tokens (snd (snd (route ref_tokio
       (fst (snd (route ref_tokio ref_conn1 (Request ref_hover) ref_world1)))
       (Notification (cancel_notification (req_id ref_hover)))
       (snd (snd (route ref_tokio ref_conn1 (Request ref_hover) ref_world1)))))))"
proof -
  have "incoming_get_token (incoming (conn_queue ref_conn1)) (req_id ref_hover) = Some 3"
    by (simp add: incoming_get_token_def ref_conn1_def ref_hover_def request_new_def)
  from duplicate_id_detaches_first_token [OF ref_rt.tokio_runtime_axioms ref_new ref_reach this triple_collapse
      cancel_notification_params triple_collapse]
  show ?thesis
    by (simp add: ref_world1_def ref_tokio_def)
qed

subsection \<open>Properties: responses and the transport\<close>

text \<open>
  C8. A response reaches the receiver that waits for it: when its id is pending in the response
  map, or else in the outgoing tracker, exactly that receiver gets it and the entry goes away;
  a response without an id or with an unknown id is reported and changes nothing.
\<close>

theorem response_reaches_its_waiter:
  assumes "tokio_runtime tk known descends opened queued live"
    and "connection_new tk split framed_new io w0 = (c0, w1)" and "conn_reach tk (c0, w1, []) (c, w, hs)"
    and "route tk c (Response r) w = (x, c', w')"
  shows "case response_target c w r of
      None \<Rightarrow> x = ResponseUnknown r \<and> c' = c \<and> w' = w
    | Some k \<Rightarrow> x = ResponseRouted \<and> filed c' w' = (filed c w)(k := None)
        \<and> (\<exists>h. filed c w k = Some h \<and> oneshot_poll tk h (oneshots w) = Rx_waiting
            \<and> (\<forall>g. oneshot_poll tk g (oneshots w') = (if g = h then Rx_value r else oneshot_poll tk g (oneshots w))))"
proof (cases "response_target c w r")
  case None
  then show ?thesis
    using route_response_shape [of tk c r w x c' w'] assms(4) by simp
next
  case (Some k)
  note os = tokio_runtime.axioms(2) [OF assms(1)]
  have "conn_inv tk known descends opened (c, w, hs)"
    using tokio_runtime.fresh_connection_inv [OF assms(1-3)] .
  then have ok: "senders_ok tk opened (filed c w) (oneshots w)"
    by (simp add: conn_inv_def)
  have shape: "x = ResponseRouted" "filed c' w' = (filed c w)(k := None)"
    "\<exists>h. filed c w k = Some h \<and> oneshots w' = oneshot_send tk h r (oneshots w)"
    using route_response_shape [of tk c r w x c' w'] assms(4) Some by simp_all
  then obtain h where h: "filed c w k = Some h" "oneshots w' = oneshot_send tk h r (oneshots w)"
    by blast
  have "oneshot_poll tk h (oneshots w) = Rx_waiting"
    using oneshot_channels.senders_waiting [OF os ok h(1)] .
  moreover have "oneshot_poll tk h (oneshots w') = Rx_value r" "\<And>g. g \<noteq> h \<Longrightarrow> oneshot_poll tk g (oneshots w') = oneshot_poll tk g (oneshots w)"
    using oneshot_channels.take_sender [OF os ok h(1), of "oneshots w'" r "Rx_value r"] h(2) by simp_all
  ultimately show ?thesis
    using Some shape(1,2) h(1) by simp
qed

theorem response_reaches_its_waiter_witness:
  "\<exists>oq. oneshot_poll ref_tokio 0 (oneshots (snd (snd (route ref_tokio
       (ref_conn1\<lparr>conn_queue := (conn_queue ref_conn1)\<lparr>outgoing := oq\<rparr>\<rparr>) (Response (response_ok (IntegerId 5) JNull))
       (ref_world1\<lparr>oneshots := [Rx_waiting]\<rparr>))))) = Rx_value (response_ok (IntegerId 5) JNull)"
proof -
  define oq where "oq = \<lparr>out_pending = [IntegerId 5 \<mapsto> 0]\<rparr>"
  have "outgoing_register ref_tokio (outgoing (conn_queue ref_conn1)) (IntegerId 5) (oneshots ref_world1)
      = (0, oq, [Rx_waiting])"
    by (simp add: outgoing_register_def ref_tokio_def ref_world1_def ref_conn_world_def ref_world_def ref_conn1_def
        request_queue_new_def outgoing_new_def oq_def)
  note resp = response_reaches_its_waiter [OF ref_rt.tokio_runtime_axioms ref_new
      reach_step [OF ref_reach Register_out [OF this]] triple_collapse, of "response_ok (IntegerId 5) JNull"]
  let ?c = "ref_conn1\<lparr>conn_queue := (conn_queue ref_conn1)\<lparr>outgoing := oq\<rparr>\<rparr>"
  let ?w = "ref_world1\<lparr>oneshots := [Rx_waiting]\<rparr>"
  have "filed ?c ?w (Inl (IntegerId 5)) = Some 0" "filed ?c ?w (Inr (IntegerId 5)) = None"
    by (simp_all add: oq_def ref_conn1_def ref_conn_def)
  then have "response_target ?c ?w (response_ok (IntegerId 5) JNull) = Some (Inl (IntegerId 5))"
    by (simp add: response_target_def response_ok_def)
  with resp \<open>filed ?c ?w (Inl (IntegerId 5)) = Some 0\<close> show ?thesis
    by (intro exI [of _ oq]) auto
qed

end
