(* ===== verification/Handshake.thy ===== *)
theory Handshake
  imports Connection
begin

text \<open>
  The protocol side of \<open>src/src/connection.rs\<close>: the closed forms of the initialization handshake
  and of the blocking request, the delivery order and the failure of the drain task, and the
  lifecycle.
\<close>

subsection \<open>The handshake\<close>

context outbound_sends
begin

lemma initialize_start_live:
  assumes "live (outbound w)" and "initialize_start tk c w = (r, c', w')"
  shows "live (outbound w')
    \<and> queued (outbound w') = queued (outbound w)
        @ concat (map (refusals start_outcome) (takeWhile (\<lambda>e. start_outcome e = None) (receiver c)))
    \<and> (case dropWhile (\<lambda>e. start_outcome e = None) (receiver c) of
         [] \<Rightarrow> r = Pending \<and> c' = c\<lparr>receiver := []\<rparr>
       | e # rest \<Rightarrow> r = Ready (the (start_outcome e))
           \<and> c' = (on_success start_outcome Initializing e c)\<lparr>receiver := rest\<rparr>)"
  using start_loop.loop_first_outcome [OF assms(1) assms(2) [unfolded initialize_start_def]] by blast

lemma initialize_start_closed:
  assumes "\<not> live (outbound w)" and "initialize_start tk c w = (r, c', w')"
  shows "queued (outbound w') = queued (outbound w)
    \<and> (case dropWhile (\<lambda>e. start_outcome e = None \<and> refusals start_outcome e = []) (receiver c) of
         [] \<Rightarrow> r = Pending \<and> c' = c\<lparr>receiver := []\<rparr>
       | e # rest \<Rightarrow>
           (case start_outcome e of
              Some a \<Rightarrow> r = Ready a \<and> c' = (on_success start_outcome Initializing e c)\<lparr>receiver := rest\<rparr>
            | None \<Rightarrow> r = Ready (Inl (Io closed_error)) \<and> c' = c\<lparr>receiver := rest\<rparr>))"
  using start_loop.loop_closed [OF assms(1) assms(2) [unfolded initialize_start_def]] .

lemma send_closed:
  assumes "\<not> live (outbound w)"
  shows "fst (conn_send tk m w) = Inl closed_error" and "queued (outbound (snd (conn_send tk m w))) = queued (outbound w)"
  using start_loop.conn_send_closed [OF assms, of m] by (metis prod.collapse)+

lemma initialize_finish_live:
  assumes "live (outbound w)" and "initialize_finish tk c i v w = (r, c', w')"
  shows "live (outbound w')
    \<and> queued (outbound w') = queued (outbound w) @ [Response (response_ok i v)]
        @ concat (map (refusals finish_outcome) (takeWhile (\<lambda>e. finish_outcome e = None) (receiver c)))
    \<and> (case dropWhile (\<lambda>e. finish_outcome e = None) (receiver c) of
         [] \<Rightarrow> r = Pending \<and> c' = c\<lparr>receiver := []\<rparr>
       | e # rest \<Rightarrow> r = Ready (the (finish_outcome e))
           \<and> c' = (on_success finish_outcome Running e c)\<lparr>receiver := rest\<rparr>)"
proof -
  obtain x w1 where s: "conn_send tk (Response (response_ok i v)) w = (x, w1)"
    by fastforce
  note sent = start_loop.conn_send_live [OF assms(1) s]
  have "initialize_finish_loop tk c (receiver c) w1 = (r, c', w')"
    using assms(2) s sent by (simp add: initialize_finish_def)
  from finish_loop.loop_first_outcome [OF _ this] sent show ?thesis
    by simp
qed

lemma send_request_live:
  assumes "live (outbound w)" and "send_request tk c i m p w = (r, c', w')"
  shows "live (outbound w') \<and> queued (outbound w') = queued (outbound w) @ [Request (request_new i m p)]
    \<and> (case dropWhile (\<lambda>e. request_outcome i e = None) (receiver c) of
         [] \<Rightarrow> r = Pending \<and> c' = c\<lparr>receiver := []\<rparr>
       | e # rest \<Rightarrow> r = Ready (the (request_outcome i e)) \<and> c' = c\<lparr>receiver := rest\<rparr>)"
proof -
  obtain x w1 where s: "conn_send tk (Request (request_new i m p)) w = (x, w1)"
    by fastforce
  note sent = start_loop.conn_send_live [OF assms(1) s]
  have "(case send_request_loop i c (receiver c) of (r, c') \<Rightarrow> (r, c', w1)) = (r, c', w')"
    using assms(2) s sent by (simp add: send_request_def)
  from response_loop.loop_first_outcome [OF _ this] sent show ?thesis
    by simp
qed

end



text \<open>A stream with an early request, the handshake messages and a request after them.\<close>

definition ref_init :: request where
  "ref_init = request_new (IntegerId 7) ''initialize'' None"

definition ref_stream :: "recv_event list" where
  "ref_stream = [Next (Some (Inr (Request ref_hover))), Next (Some (Inr (Request ref_init))),
     Next (Some (Inr (Response (response_ok (IntegerId 3) JNull)))),
     Next (Some (Inr (Notification (notification_new ''initialized'' None)))), Next (Some (Inr (Request ref_hover)))]"

lemma ref_live: "snd (outbound ref_conn_world)"
  by (simp add: ref_conn_world_def)





text \<open>
  C34. The blocking \<open>send_request\<close> writes the request and ends at the first event that decides it:
  a response with its id, an I/O error, the end of the stream or the timeout. Messages that arrive
  before are consumed and lost.
\<close>

theorem send_request_first_decisive:
  assumes "outbound_sends tk queued live" and "live (outbound w)"
    and "receiver c = pre @ e # rest" and "\<forall>x\<in>set pre. request_outcome i x = None"
    and "request_outcome i e = Some res" and "send_request tk c i m p w = (r, c', w')"
  shows "r = Ready res \<and> c' = c\<lparr>receiver := rest\<rparr>
    \<and> queued (outbound w') = queued (outbound w) @ [Request (request_new i m p)]"
proof -
  have split: "dropWhile (\<lambda>e. request_outcome i e = None) (receiver c) = e # rest"
    using assms(3-5) by (simp add: dropWhile_append2)
  show ?thesis
    using outbound_sends.send_request_live [OF assms(1,2,6)] assms(5) by (simp add: split)
qed

theorem send_request_first_decisive_witness:
  "fst (send_request ref_tokio (ref_conn\<lparr>receiver := ref_stream\<rparr>) (IntegerId 3) ''m'' None ref_conn_world)
     = Ready (Inr (response_ok (IntegerId 3) JNull))"
  using send_request_first_decisive [OF ref_rt.outbound_sends_axioms ref_live _ _ _ triple_collapse,
      of "ref_conn\<lparr>receiver := ref_stream\<rparr>" "take 2 ref_stream" "ref_stream ! 2" "drop 3 ref_stream"
        "IntegerId 3" "Inr (response_ok (IntegerId 3) JNull)"]
  by (simp add: ref_stream_def response_ok_def stream_outcome_def eval_nat_numeral)

text \<open>
  C31. Once the drain task has ended, everything that has to write fails with the error of a
  closed connection: \<open>initialize_finish\<close> and \<open>send_request\<close> at once, without reading any input or
  changing the connection, and \<open>initialize_start\<close> at the first request it would have to refuse,
  unless an event that decides it comes first. A shutdown reports the error too, but the
  connection is shutting down and its token cancelled all the same.
\<close>

theorem closed_connection_fails_calls:
  assumes "outbound_sends tk queued live" and "\<not> live (outbound w)"
    and "receiver c = pre @ e # rest" and "\<forall>x\<in>set pre. start_outcome x = None \<and> refusals start_outcome x = []"
    and "start_outcome e = None \<longrightarrow> refusals start_outcome e \<noteq> []"
    and "initialize_start tk c w = (r1, c1, w1)" and "initialize_finish tk c i v w = (r2, c2, w2)"
    and "send_request tk c j m p w = (r3, c3, w3)" and "handle_shutdown tk c k w = (r4, c4, w4)"
  shows "r1 = Ready (case start_outcome e of Some res \<Rightarrow> res | None \<Rightarrow> Inl (Io closed_error)) \<and> receiver c1 = rest
    \<and> (start_outcome e = None \<longrightarrow> c1 = c\<lparr>receiver := rest\<rparr>)
    \<and> r2 = Ready (Inl (Io closed_error)) \<and> c2 = c \<and> r3 = Ready (Inl (Io closed_error)) \<and> c3 = c
    \<and> r4 = Inl (Io closed_error) \<and> is_shutting_down c4 \<and> tokens w4 = token_cancel tk (shutdown_token c) (tokens w)
    \<and> (\<forall>w'\<in>{w1, w2, w3, w4}. queued (outbound w') = queued (outbound w))"
proof -
  have split: "dropWhile (\<lambda>e. start_outcome e = None \<and> refusals start_outcome e = []) (receiver c) = e # rest"
    using assms(3-5) by (auto simp: dropWhile_append2)
  have start: "r1 = Ready (case start_outcome e of Some res \<Rightarrow> res | None \<Rightarrow> Inl (Io closed_error)) \<and> receiver c1 = rest
    \<and> (start_outcome e = None \<longrightarrow> c1 = c\<lparr>receiver := rest\<rparr>) \<and> queued (outbound w1) = queued (outbound w)"
    using outbound_sends.initialize_start_closed [OF assms(1,2,6)] unfolding split
    by (cases "start_outcome e") auto
  have sends: "\<exists>w'. conn_send tk x u = (Inl closed_error, w') \<and> queued (outbound w') = queued (outbound w) \<and> tokens w' = tokens u"
    if "outbound u = outbound w" for x u
    using outbound_sends.send_closed [OF assms(1), of u x] conn_send_frame [OF prod.collapse [of "conn_send tk x u", symmetric]]
      that assms(2) by (intro exI [of _ "snd (conn_send tk x u)"]) (simp add: prod_eq_iff outbound_only_def)
  let ?u = "w\<lparr>tokens := token_cancel tk (conn_shutdown_token c) (tokens w)\<rparr>"
  have "r2 = Ready (Inl (Io closed_error)) \<and> c2 = c \<and> queued (outbound w2) = queued (outbound w)"
    using sends [of w "Response (response_ok i v)"] assms(7) by (auto simp: initialize_finish_def)
  moreover have "r3 = Ready (Inl (Io closed_error)) \<and> c3 = c \<and> queued (outbound w3) = queued (outbound w)"
    using sends [of w "Request (request_new j m p)"] assms(8) by (auto simp: send_request_def)
  moreover have "r4 = Inl (Io closed_error) \<and> is_shutting_down c4 \<and> queued (outbound w4) = queued (outbound w)
    \<and> tokens w4 = token_cancel tk (shutdown_token c) (tokens w)"
    using sends [of ?u "Response (response_ok k JNull)"] assms(9)
    by (auto simp: handle_shutdown_def is_shutting_down_def shutdown_token_def)
  ultimately show ?thesis
    using start by simp
qed

theorem closed_connection_fails_calls_witness:
  "let w = ref_conn_world\<lparr>outbound := ([], False)\<rparr> in
   fst (initialize_start ref_tokio (ref_conn\<lparr>receiver := ref_stream\<rparr>) w) = Ready (Inl (Io closed_error))
   \<and> fst (initialize_finish ref_tokio (ref_conn\<lparr>receiver := ref_stream\<rparr>) (IntegerId 7) JNull w) = Ready (Inl (Io closed_error))"
  using closed_connection_fails_calls [OF ref_rt.outbound_sends_axioms _ _ _ _ triple_collapse triple_collapse triple_collapse
      triple_collapse, of "ref_conn_world\<lparr>outbound := ([], False)\<rparr>" "ref_conn\<lparr>receiver := ref_stream\<rparr>" "[]"
        "Next (Some (Inr (Request ref_hover)))" "tl ref_stream" "IntegerId 7" JNull]
  by (simp add: ref_stream_def ref_hover_def request_new_def refusals_def)

subsection \<open>Cancellation by notification\<close>

text \<open>
  C26. The deprecated \<open>handle_cancel_request\<close> and \<open>route\<close> handle a notification alike: \<open>route\<close> consumes
  it exactly when \<open>handle_cancel_request\<close> gives an answer, and both have the same effect. The id
  they act on is the one that the deserialiser of request ids reads in the parameters. The
  notification that \<open>cancel\<close> sends for an id has on the peer the effect of \<open>cancel_incoming\<close> for this
  id, and the answer says whether the request was pending.
\<close>

theorem cancel_paths_agree:
  "route tk c (Notification n) w =
     (case handle_cancel_request tk c n w of
        (Some _, w') \<Rightarrow> (CancelHandled, c, w')
      | (None, w') \<Rightarrow> (IncomingNotification n, c, w'))
   \<and> parse_cancel_params (Some p) = Option.bind (value_get p ''id'') (\<lambda>v. res_ok (request_id_deserialize v))
   \<and> handle_cancel_request tk c (cancel_notification i) w
      = (Some (incoming_is_pending (incoming (conn_queue c)) i), snd (cancel_incoming tk c i w))
   \<and> fst (cancel_incoming tk c i w) = incoming_is_pending (incoming (conn_queue c)) i"
proof -
  have params: "parse_cancel_params (notif_params (cancel_notification i)) = Some i"
    using parse_cancel_params_agrees [THEN conjunct2, THEN conjunct1, of i] by (simp add: cancel_notification_def notification_new_def)
  have "route tk c (Notification n) w = (case handle_cancel_request tk c n w of
      (Some _, w') \<Rightarrow> (CancelHandled, c, w') | (None, w') \<Rightarrow> (IncomingNotification n, c, w'))"
    by (simp add: route_notification_def handle_cancel_request_def cancel_incoming_def Let_def split: option.split prod.split)
  moreover have "fst (cancel_incoming tk c i w) = incoming_is_pending (incoming (conn_queue c)) i"
    by (auto simp: cancel_incoming_def incoming_cancel_def incoming_is_pending_def Let_def split: option.split prod.split)
  moreover have "notif_method (cancel_notification i) = cancel_request_method"
    by (simp add: cancel_notification_def notification_new_def)
  ultimately show ?thesis
    using parse_cancel_params_agrees [of p] by (simp add: handle_cancel_request_def params case_prod_unfold)
qed

subsection \<open>The drain task\<close>

context outbound_channel
begin

lemma drain_task_order:
  assumes "drain_task tk alive gone rs w = (ms, ended, w')"
  shows "(\<not> ended \<longrightarrow> queued (outbound w) = ms @ queued (outbound w') \<and> live (outbound w') = live (outbound w))
    \<and> prefix ms (queued (outbound w)) \<and> (ended \<longrightarrow> \<not> live (outbound w'))"
  using assms
proof (induction rs arbitrary: w ms ended w')
  case (Cons r rs)
  obtain m mw where m: "mpsc_recv tk (outbound w) = (m, mw)"
    by fastforce
  obtain ms1 e1 w1 where d: "drain_task tk alive gone rs (w\<lparr>outbound := mw\<rparr>) = (ms1, e1, w1)"
    by (metis prod_cases3)
  show ?case
  proof (cases "queued (outbound w)")
    case Nil
    then show ?thesis
      using Cons.prems m recv_none [OF Nil m] close_dead by (auto simp: drain_exit_def split: if_splits)
  next
    case (Cons x q)
    then show ?thesis
      using Cons.prems Cons.IH [OF d] m d recv_some [OF Cons m] close_dead
      by (cases r) (auto simp: drain_exit_def)
  qed
qed simp

end

text \<open>
  C16. Messages are written in the order they were queued, without loss or repetition: a run of
  the drain task writes a prefix of the queue and, as long as it runs, leaves the rest queued.
  When it ends, the channel is closed and its token cancelled, so that from then on sending fails,
  no request keeps waiting, and a new request fails at once as disconnected.
\<close>

theorem drain_in_order_and_failure_visible:
  assumes "tokio_runtime tk known descends opened queued live"
    and "conn_drain_alive c \<in> known (tokens w)"
    and "drain_task tk (conn_drain_alive c) gone rs w = (ms, ended, w')"
    and "conn_send tk m w' = (res, w2)" and "counter_ok s w'"
    and "request tk s method params w' = (started, w3)"
  shows "prefix ms (queued (outbound w))
    \<and> (\<not> ended \<longrightarrow> queued (outbound w) = ms @ queued (outbound w'))
    \<and> (ended \<longrightarrow> res = Inl (Io_error BrokenPipe (Io_text ''connection closed''))
         \<and> (\<forall>f rx_first. fut_alive f = conn_drain_alive c \<longrightarrow> poll_request tk rx_first f w' \<noteq> Pending)
         \<and> (\<exists>e. started = Some (Finished (Inl e)) \<and> (e = Disconnected \<or> e = Io slot_error)))"
proof -
  note ct = tokio_runtime.axioms(1) [OF assms(1)] and oc = tokio_runtime.axioms(3) [OF assms(1)]
  note order = outbound_channel.drain_task_order [OF oc assms(3)]
  have failed: "(\<exists>e. started = Some (Finished (Inl e)) \<and> (e = Disconnected \<or> e = Io slot_error))"
    "res = Inl closed_error" if "ended"
  proof -
    have dead: "\<not> live (outbound w')"
      using order that by blast
    then have fail: "\<not> fst (outbound_send tk x v)" if "outbound v = outbound w'" for x v
      using that outbound_sends.send_dead [OF outbound_channel.axioms(1) [OF oc] dead, of x] by (auto simp: outbound_send_def split: prod.splits)
    show "res = Inl closed_error"
      using assms(4) fail [of w' m] by (auto simp: conn_send_def split: prod.splits if_splits)
    show "\<exists>e. started = Some (Finished (Inl e)) \<and> (e = Disconnected \<or> e = Io slot_error)"
      using assms(5,6)
    proof (cases rule: request_cases)
      case (2 i h w1 r1)
      have "outbound w1 = outbound w'"
        using reserve_loop_frame [OF assms(5)] 2(1) by (simp add: reserve_request_slot_def)
      then have "\<not> fst (outbound_send tk (Request (request_new i method params)) w1)"
        by (rule fail)
      with 2(3,4) show ?thesis
        by (auto elim!: send_registered_cases)
    qed simp
  qed
  moreover have "poll_request tk rx_first f w' \<noteq> Pending" if "ended" "fut_alive f = conn_drain_alive c" for f rx_first
  proof -
    have "is_cancelled tk (conn_drain_alive c) (tokens w')"
      using drain_task_frame [OF assms(3)] that(1) assms(2) cancellation_tokens.descends_refl [OF ct]
      by (simp add: cancellation_tokens.cancel_token [OF ct])
    then show ?thesis
      using that(2) by (cases rx_first) (simp_all add: poll_request_def poll_alive_def Let_def split: poll.splits)
  qed
  ultimately show ?thesis
    using order by (simp add: closed_error_def)
qed

theorem drain_in_order_and_failure_visible_witness:
  "fst (conn_send ref_tokio (Request ref_init) (snd (snd (drain_task ref_tokio (conn_drain_alive ref_conn) True [Inr ()] ref_conn_world))))
     = Inl (Io_error BrokenPipe (Io_text ''connection closed''))"
proof -
  let ?d = "drain_task ref_tokio (conn_drain_alive ref_conn) True [Inr ()] ref_conn_world"
  have "conn_drain_alive ref_conn \<in> ref_known (tokens ref_conn_world)"
    by (simp add: ref_conn_def ref_conn_world_def ref_known_def)
  moreover have "fst (snd ?d)" "counter_ok ref_sender (snd (snd ?d))"
    by (simp_all add: ref_tokio_def ref_conn_world_def ref_world_def drain_exit_def counter_ok_def ref_sender_def i32_max_def)
  ultimately show ?thesis
    using drain_in_order_and_failure_visible [OF ref_rt.tokio_runtime_axioms _ triple_collapse prod.collapse [symmetric]
        _ prod.collapse [symmetric], of ref_conn ref_conn_world ref_sender] by blast
qed

subsection \<open>The lifecycle\<close>

text \<open>
  Routing is the same in every lifecycle state: \<open>route\<close> neither reads nor changes the state,
  so that messages that the tables of the lifecycle forbid are routed like all others.
\<close>

lemma route_ignores_lifecycle:
  "route tk (c\<lparr>conn_state := st\<rparr>) m w =
     (case route tk c m w of (r, c', w') \<Rightarrow> (r, c'\<lparr>conn_state := st\<rparr>, w'))
   \<and> lifecycle_state (fst (snd (route tk c m w))) = lifecycle_state c"
proof (cases m)
  case (Response r)
  then show ?thesis
    by (simp add: route_response_def route_outgoing_def lifecycle_state_def split: option.splits bool.splits prod.splits)
qed (simp_all add: route_request_def route_notification_def lifecycle_state_def Let_def
      split: prod.splits option.splits)

text \<open>
  The exit code: exit is clean exactly when the connection is shutting down, that is after a
  \<open>handle_shutdown\<close> and no other lifecycle change since. Shutdown moves every state to
  \<open>ShuttingDown\<close>, also \<open>Exited\<close>, so that exit, shutdown, exit ends with a clean exit code.
\<close>

lemma exit_code_reports_shutdown:
  "(exit_code_to_i32 (fst (handle_exit c)) = 0 \<longleftrightarrow> is_shutting_down c)
   \<and> lifecycle_state (snd (handle_exit c)) = Exited
   \<and> is_shutting_down (fst (snd (handle_shutdown tk c i w)))
   \<and> fst (handle_exit (fst (snd (handle_shutdown tk (snd (handle_exit c)) i w)))) = ExitSuccess
   \<and> fst (handle_exit (snd (handle_exit c))) = ExitError"
proof -
  have s: "fst (snd (handle_shutdown tk d i w)) = d\<lparr>conn_state := ShuttingDown\<rparr>" for d
    using handle_shutdown_shape [OF triple_collapse, of tk d i w] by blast
  show ?thesis
    by (simp add: s handle_exit_def is_shutting_down_def lifecycle_state_def)
qed

end
