(* ===== verification/Text_Positions.thy ===== *)
theory Text_Positions
  imports Rust_Std
begin

text \<open>
  \<open>src/examples/formatter_server.rs\<close>, the position arithmetic: LSP positions (line and UTF-16
  column) against byte offsets of a UTF-8 string. A slice at an offset that is not a character
  boundary panics in Rust; here it is \<open>None\<close>. The line and column counters are \<open>u32\<close> in the
  source and natural numbers here; the counters of the end position never exceed the length of the
  document, so they agree for documents under four gigabytes.
\<close>

record position =
  line :: nat
  character :: nat

definition LF :: char where
  "LF = CHR 0x0A"

definition CR :: char where
  "CR = CHR 0x0D"

text \<open>\<open>str::is_char_boundary\<close>, and slicing from an offset.\<close>

definition is_char_boundary :: "string \<Rightarrow> nat \<Rightarrow> bool" where
  "is_char_boundary s i \<longleftrightarrow> i = 0 \<or> i = length s \<or> i < length s \<and> \<not> utf8_cont (s ! i)"

definition slice_from :: "string \<Rightarrow> nat \<Rightarrow> string option" where
  "slice_from s i = (if is_char_boundary s i then Some (drop i s) else None)"

definition slice_to :: "string \<Rightarrow> nat \<Rightarrow> string option" where
  "slice_to s i = (if is_char_boundary s i then Some (take i s) else None)"

text \<open>\<open>char::len_utf16\<close> of a character of \<open>n\<close> bytes.\<close>

definition len_utf16 :: "nat \<Rightarrow> nat" where
  "len_utf16 n = (if n = 4 then 2 else 1)"

definition first_width :: "string \<Rightarrow> nat" where
  "first_width s = (case utf8_first s of Some n \<Rightarrow> n | None \<Rightarrow> 1)"

lemma first_width_pos: "0 < first_width s"
  by (auto simp: first_width_def dest: utf8_first_bounds split: option.splits)

text \<open>The offset after a line break at \<open>i\<close>: a carriage return and line feed count as one.\<close>

definition after_cr :: "string \<Rightarrow> nat \<Rightarrow> nat" where
  "after_cr s i = (if i + 1 < length s \<and> s ! (i + 1) = LF then i + 2 else i + 1)"

function line_start_loop :: "string \<Rightarrow> nat \<Rightarrow> nat \<Rightarrow> nat \<Rightarrow> nat option" where
  "line_start_loop content target offset current =
     (if offset < length content \<and> current < target then
        if content ! offset = LF then line_start_loop content target (offset + 1) (current + 1)
        else if content ! offset = CR then line_start_loop content target (after_cr content offset) (current + 1)
        else
          (case slice_from content offset of
             None \<Rightarrow> None
           | Some rest \<Rightarrow> line_start_loop content target (offset + first_width rest) current)
      else Some (if current = target then offset else length content))"
  by pat_completeness auto
termination
  by (relation "measure (\<lambda>(content, target, offset, current). length content - offset)")
    (use first_width_pos in \<open>auto simp: after_cr_def intro: diff_less_mono2\<close>)

declare line_start_loop.simps [simp del]

definition line_start_offset :: "string \<Rightarrow> nat \<Rightarrow> nat option" where
  "line_start_offset content target_line = line_start_loop content target_line 0 0"

function column_loop :: "string \<Rightarrow> nat \<Rightarrow> nat \<Rightarrow> nat \<Rightarrow> nat" where
  "column_loop rest target units offset =
     (case utf8_first rest of
        None \<Rightarrow> offset
      | Some n \<Rightarrow>
          if hd rest = LF \<or> hd rest = CR then offset
          else if target < units + len_utf16 n then offset
          else column_loop (drop n rest) target (units + len_utf16 n) (offset + n))"
  by pat_completeness auto
termination
  by (relation "measure (\<lambda>(rest, target, units, offset). length rest)") (auto dest: utf8_first_bounds)

declare column_loop.simps [simp del]

definition position_to_offset :: "string \<Rightarrow> position \<Rightarrow> nat option" where
  "position_to_offset content pos =
     (case line_start_offset content (line pos) of
        None \<Rightarrow> None
      | Some line_start \<Rightarrow>
          if length content \<le> line_start then Some (length content)
          else
            (case slice_from content line_start of
               None \<Rightarrow> None
             | Some rest \<Rightarrow> Some (column_loop rest (character pos) 0 line_start)))"

function end_position_loop :: "string \<Rightarrow> nat \<Rightarrow> position \<Rightarrow> position option" where
  "end_position_loop content offset pos =
     (if offset < length content then
        if content ! offset = LF then
          end_position_loop content (offset + 1) (pos\<lparr>line := line pos + 1, character := 0\<rparr>)
        else if content ! offset = CR then
          end_position_loop content (after_cr content offset) (pos\<lparr>line := line pos + 1, character := 0\<rparr>)
        else
          (case slice_from content offset of
             None \<Rightarrow> None
           | Some rest \<Rightarrow>
               (case utf8_first rest of
                  None \<Rightarrow> Some pos
                | Some n \<Rightarrow>
                    end_position_loop content (offset + n) (pos\<lparr>character := character pos + len_utf16 n\<rparr>)))
      else Some pos)"
  by pat_completeness auto
termination
  by (relation "measure (\<lambda>(content, offset, pos). length content - offset)")
    (auto simp: after_cr_def dest: utf8_first_bounds)

declare end_position_loop.simps [simp del]

definition end_position_utf16 :: "string \<Rightarrow> position option" where
  "end_position_utf16 content = end_position_loop content 0 \<lparr>line = 0, character = 0\<rparr>"

subsection \<open>Character boundaries\<close>

lemma newline_ascii: "byte_val LF < 128" "byte_val CR < 128"
  by (simp_all add: LF_def CR_def)

lemma LF_neq_CR [simp]: "LF \<noteq> CR" "CR \<noteq> LF"
  by (simp_all add: LF_def CR_def)

lemma utf8_valid_first:
  assumes "utf8_valid s" and "s \<noteq> []"
  obtains n where "utf8_first s = Some n" "utf8_valid (drop n s)" "1 \<le> n" "n \<le> length s"
  using assms utf8_valid.simps [of s] utf8_first_bounds [of s] by (auto split: option.splits)

text \<open>A character is a first byte that is no continuation byte, and up to three continuation bytes.\<close>

lemma utf8_first_shape:
  assumes "utf8_first (a # r) = Some n"
  shows "\<not> utf8_cont a \<and> (\<exists>bs t. r = bs @ t \<and> n = Suc (length bs) \<and> (\<forall>b\<in>set bs. utf8_cont b)
    \<and> (\<forall>u. utf8_first (a # bs @ u) = Some n))"
proof -
  consider "byte_val a < 0x80" "n = 1"
    | b t where "0xC2 \<le> byte_val a" "byte_val a \<le> 0xDF" "r = [b] @ t" "n = 2" "utf8_cont b"
    | b c t where "0xE0 \<le> byte_val a" "byte_val a \<le> 0xEF" "r = [b, c] @ t" "n = 3" "utf8_cont b" "utf8_cont c"
    | b c d t where "0xF0 \<le> byte_val a" "byte_val a \<le> 0xF4" "r = [b, c, d] @ t" "n = 4"
        "utf8_cont b" "utf8_cont c" "utf8_cont d"
    using assms by (auto simp: utf8_first_def split: list.splits if_splits)
  then show ?thesis
  proof cases
    case 1
    then show ?thesis
      by (intro conjI exI [of _ "[]"] exI [of _ r]) (auto simp: utf8_first_def utf8_cont_def)
  next
    case (2 b t)
    then show ?thesis
      by (intro conjI exI [of _ "[b]"] exI [of _ t]) (auto simp: utf8_first_def utf8_cont_def)
  next
    case (3 b c t)
    then show ?thesis
      using assms by (intro conjI exI [of _ "[b, c]"] exI [of _ t])
        (auto simp: utf8_first_def utf8_cont_def split: if_splits)
  next
    case (4 b c d t)
    then show ?thesis
      using assms by (intro conjI exI [of _ "[b, c, d]"] exI [of _ t])
        (auto simp: utf8_first_def utf8_cont_def split: if_splits)
  qed
qed

lemma utf8_first_split:
  assumes "utf8_first s = Some n"
  obtains a bs t where "s = a # bs @ t" "n = Suc (length bs)" "\<forall>b\<in>set bs. utf8_cont b" "\<not> utf8_cont a"
    "\<And>u. utf8_first (a # bs @ u) = Some n"
proof -
  obtain a r where "s = a # r"
    using assms by (cases s) (auto simp: utf8_first_def)
  with assms that show thesis
    using utf8_first_shape [of a r n] by blast
qed

text \<open>A character other than a line break contains no byte of a line break.\<close>

lemma utf8_first_take_no_newline:
  assumes "utf8_first s = Some n" and "hd s \<noteq> LF" and "hd s \<noteq> CR"
  shows "LF \<notin> set (take n s) \<and> CR \<notin> set (take n s)"
proof -
  have "\<not> utf8_cont LF" "\<not> utf8_cont CR"
    by (simp_all add: utf8_cont_def LF_def CR_def)
  with assms show ?thesis
    by (auto elim!: utf8_first_split)
qed

lemma utf8_first_Nil [simp]: "utf8_first [] = None"
  by (simp add: utf8_first_def)

lemma utf8_first_append: "utf8_first s = Some n \<Longrightarrow> utf8_first (s @ t) = Some n"
  by (elim utf8_first_split) simp

lemma utf8_valid_append: "utf8_valid s \<Longrightarrow> utf8_valid (s @ t) = utf8_valid t"
proof (induction "length s" arbitrary: s rule: less_induct)
  case less
  show ?case
  proof (cases "s = []")
    case False
    with less.prems obtain n where n: "utf8_first s = Some n" "utf8_valid (drop n s)" "1 \<le> n" "n \<le> length s"
      by (rule utf8_valid_first)
    have "utf8_valid (s @ t) = utf8_valid (drop n s @ t)"
      using False n(4) by (subst utf8_valid.simps) (simp add: utf8_first_append [OF n(1)])
    with less.hyps [of "drop n s"] n False show ?thesis
      by simp
  qed simp
qed

text \<open>Inside a string, a suffix that is valid starts at a boundary, and its prefix is valid.\<close>

lemma valid_suffix_boundary:
  assumes "utf8_valid (drop k s)" and "k \<le> length s"
  shows "is_char_boundary s k"
proof (cases "k = length s")
  case False
  then have k: "k < length s" "drop k s = s ! k # drop (Suc k) s"
    using assms(2) by (simp_all add: Cons_nth_drop_Suc)
  have "drop k s \<noteq> []"
    using k(1) by simp
  with assms(1) obtain n where "utf8_first (drop k s) = Some n"
    using utf8_valid_first by blast
  then have "\<not> utf8_cont (s ! k)"
    unfolding k(2) using utf8_first_shape by blast
  with k(1) show ?thesis
    by (simp add: is_char_boundary_def)
qed (simp add: is_char_boundary_def)

lemma valid_prefix:
  assumes "utf8_valid s" and "utf8_valid (drop k s)"
  shows "utf8_valid (take k s)"
  using assms
proof (induction "length s" arbitrary: s k rule: less_induct)
  case less
  show ?case
  proof (cases "s = [] \<or> k = 0 \<or> length s \<le> k")
    case False
    then obtain n where n: "utf8_first s = Some n" "utf8_valid (drop n s)" "1 \<le> n" "n \<le> length s"
      using less.prems(1) utf8_valid_first by blast
    obtain a bs t where s: "s = a # bs @ t" "n = Suc (length bs)" "\<forall>b\<in>set bs. utf8_cont b"
      "\<And>u. utf8_first (a # bs @ u) = Some n"
      using n(1) by (rule utf8_first_split) blast
    have "\<not> k < n"
    proof
      assume "k < n"
      then have "utf8_cont (s ! k)"
        using False s by (cases k) (auto simp: nth_append)
      moreover have "is_char_boundary s k"
        using less.prems(2) False by (intro valid_suffix_boundary) simp_all
      ultimately show False
        using False by (simp add: is_char_boundary_def)
    qed
    then have "take k s = take n s @ take (k - n) (drop n s)"
      by (metis le_add_diff_inverse linorder_not_less take_add)
    moreover have "utf8_valid (take n s)"
      using s(4) [of "[]"] s(1,2) by (subst utf8_valid.simps) simp
    moreover have "utf8_valid (take (k - n) (drop n s))"
      using less.hyps [of "drop n s" "k - n"] less.prems(2) n \<open>\<not> k < n\<close> by simp
    ultimately show ?thesis
      by (simp add: utf8_valid_append)
  qed (use less in auto)
qed

subsection \<open>Reference definitions\<close>

text \<open>
  Line starts by plain recursion over the bytes: the number of bytes of the first \<open>n\<close> lines with
  their line breaks, or of the whole text when it has fewer.
\<close>

fun skip_lines :: "nat \<Rightarrow> string \<Rightarrow> nat" where
  "skip_lines 0 s = 0"
| "skip_lines (Suc n) [] = 0"
| "skip_lines (Suc n) (a # r) =
     (if a = LF then Suc (skip_lines n r)
      else if a = CR then
        (if r \<noteq> [] \<and> hd r = LF then Suc (Suc (skip_lines n (tl r))) else Suc (skip_lines n r))
      else Suc (skip_lines (Suc n) r))"

text \<open>The number of line breaks and the text after the last one.\<close>

fun last_line :: "string \<Rightarrow> nat \<times> string" where
  "last_line [] = (0, [])"
| "last_line (a # r) =
     (if a = LF then (case last_line r of (n, s) \<Rightarrow> (Suc n, s))
      else if a = CR then
        (if r \<noteq> [] \<and> hd r = LF then (case last_line (tl r) of (n, s) \<Rightarrow> (Suc n, s))
         else (case last_line r of (n, s) \<Rightarrow> (Suc n, s)))
      else (case last_line r of (n, s) \<Rightarrow> if n = 0 then (0, a # s) else (n, s)))"

text \<open>The length of a text in UTF-16 code units.\<close>

function utf16_len :: "string \<Rightarrow> nat" where
  "utf16_len s = (case utf8_first s of None \<Rightarrow> 0 | Some n \<Rightarrow> len_utf16 n + utf16_len (drop n s))"
  by pat_completeness auto
termination
  by (relation "measure length") (auto dest: utf8_first_bounds)

declare utf16_len.simps [simp del]

lemma skip_lines_Nil [simp]: "skip_lines n [] = 0"
  by (cases n) simp_all

lemma skip_lines_le: "skip_lines n s \<le> length s"
proof (induction n s rule: skip_lines.induct)
  case (3 n a r)
  then show ?case
    by (cases r) auto
qed simp_all

lemma skip_lines_no_newline:
  "LF \<notin> set xs \<Longrightarrow> CR \<notin> set xs \<Longrightarrow> skip_lines (Suc n) (xs @ ys) = length xs + skip_lines (Suc n) ys"
  by (induction xs) auto

lemma last_line_no_newline:
  "LF \<notin> set xs \<Longrightarrow> CR \<notin> set xs \<Longrightarrow>
     last_line (xs @ ys) = (case last_line ys of (n, s) \<Rightarrow> if n = 0 then (0, xs @ s) else (n, s))"
  by (induction xs) (auto split: prod.splits)

lemma skip_lines_add:
  "skip_lines (m + n) s = skip_lines m s + skip_lines n (drop (skip_lines m s) s)"
proof (induction m s rule: skip_lines.induct)
  case (2 m)
  then show ?case
    by (cases n) simp_all
next
  case (3 m a r)
  then show ?case
    by (cases r) auto
qed simp

lemma skip_last_line:
  assumes "last_line s = (n, t)"
  shows "drop (skip_lines n s) s = t \<and> LF \<notin> set t \<and> CR \<notin> set t"
  using assms
proof (induction s arbitrary: n t rule: last_line.induct)
  case (2 a r)
  show ?case
  proof (cases "a = LF \<or> a = CR")
    case True
    then show ?thesis
      using 2 by (cases r) (auto split: prod.splits if_splits)
  next
    case False
    obtain n' t' where l: "last_line r = (n', t')"
      by fastforce
    then have "drop (skip_lines n' r) r = t' \<and> LF \<notin> set t' \<and> CR \<notin> set t'"
      using 2(4) False by blast
    then show ?thesis
      using 2(5) False l by (cases n') auto
  qed
qed simp

lemma valid_drop_newline:
  assumes "utf8_valid (drop i s)" and "i < length s" and "s ! i = LF \<or> s ! i = CR"
  shows "utf8_valid (drop (Suc i) s)"
proof -
  have "drop i s = s ! i # drop (Suc i) s"
    using assms(2) by (simp add: Cons_nth_drop_Suc)
  with assms(1,3) show ?thesis
    using utf8_valid_Cons_ascii newline_ascii by metis
qed

lemma valid_after_cr:
  assumes "utf8_valid (drop i s)" and "i < length s" and "s ! i = CR"
  shows "utf8_valid (drop (after_cr s i) s)" and "after_cr s i \<le> length s"
proof -
  have "utf8_valid (drop (Suc i) s)"
    using assms valid_drop_newline by blast
  then show "utf8_valid (drop (after_cr s i) s)"
    using valid_drop_newline [of "Suc i" s] by (auto simp: after_cr_def)
  show "after_cr s i \<le> length s"
    using assms(2) by (simp add: after_cr_def)
qed

text \<open>The suffix at a line break, seen by the reference definitions.\<close>

lemma reference_at_newline:
  assumes "i < length s"
  shows "s ! i = LF \<Longrightarrow> skip_lines (Suc n) (drop i s) = Suc (skip_lines n (drop (Suc i) s))"
    and "s ! i = CR \<Longrightarrow> skip_lines (Suc n) (drop i s) = after_cr s i - i + skip_lines n (drop (after_cr s i) s)"
    and "s ! i = LF \<Longrightarrow> last_line (drop i s) = (case last_line (drop (Suc i) s) of (n, t) \<Rightarrow> (Suc n, t))"
    and "s ! i = CR \<Longrightarrow> last_line (drop i s) = (case last_line (drop (after_cr s i) s) of (n, t) \<Rightarrow> (Suc n, t))"
proof -
  have d: "drop i s = s ! i # drop (Suc i) s"
    using assms by (simp add: Cons_nth_drop_Suc)
  have nx: "drop (Suc i) s \<noteq> [] \<and> hd (drop (Suc i) s) = LF \<longleftrightarrow> i + 1 < length s \<and> s ! (i + 1) = LF"
    by (auto simp: hd_drop_conv_nth)
  have tl: "tl (drop (Suc i) s) = drop (Suc (Suc i)) s"
    by (simp add: drop_Suc tl_drop)
  show "s ! i = LF \<Longrightarrow> skip_lines (Suc n) (drop i s) = Suc (skip_lines n (drop (Suc i) s))"
    unfolding d by simp
  show "s ! i = CR \<Longrightarrow> skip_lines (Suc n) (drop i s) = after_cr s i - i + skip_lines n (drop (after_cr s i) s)"
    unfolding d skip_lines.simps nx tl by (simp add: after_cr_def)
  show "s ! i = LF \<Longrightarrow> last_line (drop i s) = (case last_line (drop (Suc i) s) of (n, t) \<Rightarrow> (Suc n, t))"
    unfolding d by simp
  show "s ! i = CR \<Longrightarrow> last_line (drop i s) = (case last_line (drop (after_cr s i) s) of (n, t) \<Rightarrow> (Suc n, t))"
    unfolding d last_line.simps nx tl by (simp add: after_cr_def)
qed

text \<open>The same at any other character.\<close>

lemma reference_at_char:
  assumes "utf8_valid (drop i s)" and "i < length s" and "s ! i \<noteq> LF" and "s ! i \<noteq> CR"
  obtains k where "utf8_first (drop i s) = Some k" "1 \<le> k" "i + k \<le> length s" "utf8_valid (drop (i + k) s)"
    "\<forall>n. skip_lines (Suc n) (drop i s) = k + skip_lines (Suc n) (drop (i + k) s)"
    "last_line (drop i s) = (case last_line (drop (i + k) s) of
       (n, t) \<Rightarrow> if n = 0 then (0, take k (drop i s) @ t) else (n, t))"
    "slice_from s i = Some (drop i s)"
proof -
  have ne: "drop i s \<noteq> []" "hd (drop i s) = s ! i"
    using assms(2) by (simp_all add: hd_drop_conv_nth)
  obtain k where k: "utf8_first (drop i s) = Some k" "utf8_valid (drop k (drop i s))" "1 \<le> k" "k \<le> length (drop i s)"
    using utf8_valid_first [OF assms(1) ne(1)] by blast
  have nl: "LF \<notin> set (take k (drop i s))" "CR \<notin> set (take k (drop i s))"
    using utf8_first_take_no_newline [OF k(1)] ne(2) assms(3,4) by simp_all
  have split: "drop i s = take k (drop i s) @ drop (i + k) s"
    by (metis add.commute append_take_drop_id drop_drop)
  have len: "length (take k (drop i s)) = k"
    using k(4) by simp
  show thesis
  proof
    show "\<forall>n. skip_lines (Suc n) (drop i s) = k + skip_lines (Suc n) (drop (i + k) s)"
      using skip_lines_no_newline [OF nl, of _ "drop (i + k) s"] unfolding len split [symmetric] by blast
    show "last_line (drop i s) = (case last_line (drop (i + k) s) of
        (n, t) \<Rightarrow> if n = 0 then (0, take k (drop i s) @ t) else (n, t))"
      using last_line_no_newline [OF nl, of "drop (i + k) s"] unfolding split [symmetric] .
    show "slice_from s i = Some (drop i s)"
      using valid_suffix_boundary [OF assms(1)] assms(2) by (simp add: slice_from_def)
  qed (use k assms(2) in \<open>simp_all add: add.commute\<close>)
qed

subsection \<open>Line starts\<close>

lemma line_start_loop_eq:
  assumes "utf8_valid (drop i s)" and "i \<le> length s" and "c \<le> t"
  shows "line_start_loop s t i c = Some (i + skip_lines (t - c) (drop i s))"
  using assms
proof (induction s t i c rule: line_start_loop.induct)
  case (1 s t i c)
  show ?case
  proof (cases "i < length s \<and> c < t")
    case False
    then show ?thesis
      using 1(5,6) by (subst line_start_loop.simps) auto
  next
    case True
    then have suc: "t - c = Suc (t - Suc c)"
      by arith
    consider "s ! i = LF" | "s ! i = CR" | "s ! i \<noteq> LF" "s ! i \<noteq> CR"
      by blast
    then show ?thesis
    proof cases
      case 1
      then show ?thesis
        using "1.IH"(1) [OF True 1] "1.prems"(1) True valid_drop_newline [of i s] reference_at_newline(1) [of i s]
        by (subst line_start_loop.simps) (simp add: suc)
    next
      case 2
      then show ?thesis
        using "1.IH"(2) [OF True _ 2] "1.prems"(1) True valid_after_cr [of i s] reference_at_newline(2) [of i s]
        by (subst line_start_loop.simps) (simp add: suc after_cr_def)
    next
      case 3
      obtain k where k: "utf8_first (drop i s) = Some k" "1 \<le> k" "i + k \<le> length s" "utf8_valid (drop (i + k) s)"
        "\<And>n. skip_lines (Suc n) (drop i s) = k + skip_lines (Suc n) (drop (i + k) s)"
        "slice_from s i = Some (drop i s)"
        using reference_at_char [of i s] "1.prems"(1) True 3 by metis
      have "line_start_loop s t (i + k) c = Some (i + k + skip_lines (t - c) (drop (i + k) s))"
        using "1.IH"(3) [OF True 3 k(6)] k "1.prems"(3) by (simp add: first_width_def)
      then show ?thesis
        using True 3 k(1,5,6) by (subst line_start_loop.simps) (simp add: first_width_def suc)
    qed
  qed
qed

lemma line_start_offset_eq: "utf8_valid s \<Longrightarrow> line_start_offset s t = Some (skip_lines t s)"
  by (simp add: line_start_offset_def line_start_loop_eq)

lemma skip_lines_valid:
  assumes "utf8_valid (drop i s)" and "i \<le> length s"
  shows "utf8_valid (drop (i + skip_lines n (drop i s)) s)"
  using assms
proof (induction "length s - i" arbitrary: i n rule: less_induct)
  case less
  show ?case
  proof (cases "i < length s \<and> 0 < n")
    case False
    then show ?thesis
      using less.prems by (cases n) auto
  next
    case True
    then obtain m where m: "n = Suc m"
      using gr0_implies_Suc by blast
    consider "s ! i = LF" | "s ! i = CR" | "s ! i \<noteq> LF" "s ! i \<noteq> CR"
      by blast
    then show ?thesis
    proof cases
      case 1
      then show ?thesis
        using less.hyps [of "Suc i" m] less.prems(1) True valid_drop_newline [of i s] reference_at_newline(1) [of i s m]
        by (simp add: m diff_less_mono2)
    next
      case 2
      have "i < after_cr s i"
        by (simp add: after_cr_def)
      with 2 show ?thesis
        using less.hyps [of "after_cr s i" m] less.prems(1) True valid_after_cr [of i s] reference_at_newline(2) [of i s m]
        by (simp add: m diff_less_mono2)
    next
      case 3
      obtain k where k: "1 \<le> k" "i + k \<le> length s" "utf8_valid (drop (i + k) s)"
        "skip_lines (Suc m) (drop i s) = k + skip_lines (Suc m) (drop (i + k) s)"
        using reference_at_char [of i s] less.prems(1) True 3 by metis
      then show ?thesis
        using less.hyps [of "i + k" "Suc m"] True by (simp add: m add.assoc)
    qed
  qed
qed

subsection \<open>Columns\<close>

lemma column_loop_bounds:
  assumes "utf8_valid rest"
  shows "\<exists>k. column_loop rest t u off = off + k \<and> k \<le> length rest \<and> utf8_valid (drop k rest)
    \<and> k \<le> skip_lines (Suc 0) rest"
  using assms
proof (induction rest t u off rule: column_loop.induct)
  case (1 rest t u off)
  show ?case
  proof (cases "rest = [] \<or> hd rest = LF \<or> hd rest = CR \<or> t < u + len_utf16 (the (utf8_first rest))")
    case True
    then have "column_loop rest t u off = off"
      using "1.prems" by (subst column_loop.simps) (auto split: option.splits)
    then show ?thesis
      using "1.prems" by (intro exI [of _ 0]) simp
  next
    case False
    obtain n where n: "utf8_first rest = Some n" "utf8_valid (drop n rest)" "n \<le> length rest"
      using False "1.prems" utf8_valid_first by metis
    have nl: "LF \<notin> set (take n rest)" "CR \<notin> set (take n rest)"
      using utf8_first_take_no_newline [OF n(1)] False by simp_all
    obtain k where k: "column_loop (drop n rest) t (u + len_utf16 n) (off + n) = off + n + k"
      "k \<le> length (drop n rest)" "utf8_valid (drop k (drop n rest))" "k \<le> skip_lines (Suc 0) (drop n rest)"
      using "1.IH" [OF n(1)] False n by auto
    have "skip_lines (Suc 0) rest = n + skip_lines (Suc 0) (drop n rest)"
      using skip_lines_no_newline [OF nl, of 0 "drop n rest"] n(3) by simp
    then show ?thesis
      using k n False by (intro exI [of _ "n + k"])
        (subst column_loop.simps, auto simp: add.commute)
  qed
qed

lemma column_loop_mono:
  assumes "t \<le> t'"
  shows "column_loop rest t u off \<le> column_loop rest t' u off"
proof -
  have ge: "off \<le> column_loop r t0 v off" for r t0 v off
    by (induction r t0 v off rule: column_loop.induct)
      (subst column_loop.simps, auto split: option.splits dest: add_leD1)
  show ?thesis
    using assms
  proof (induction rest t u off rule: column_loop.induct)
    case (1 rest t u off)
    show ?case
    proof (cases "utf8_first rest = None \<or> hd rest = LF \<or> hd rest = CR \<or> t < u + len_utf16 (the (utf8_first rest))")
      case True
      then have "column_loop rest t u off = off"
        by (subst column_loop.simps) (auto split: option.splits)
      then show ?thesis
        using ge by simp
    next
      case False
      then obtain n where n: "utf8_first rest = Some n"
        by auto
      show ?thesis
        using "1.IH" [OF n] "1.prems" False n
        by (subst (1 2) column_loop.simps) auto
    qed
  qed
qed

lemma column_loop_full:
  assumes "utf8_valid rest" and "LF \<notin> set rest" and "CR \<notin> set rest" and "u + utf16_len rest \<le> t"
  shows "column_loop rest t u off = off + length rest"
  using assms
proof (induction rest t u off rule: column_loop.induct)
  case (1 rest t u off)
  show ?case
  proof (cases "rest = []")
    case True
    then show ?thesis
      by (subst column_loop.simps) (simp add: utf8_first_def)
  next
    case False
    obtain n where n: "utf8_first rest = Some n" "utf8_valid (drop n rest)" "n \<le> length rest"
      using False "1.prems"(1) utf8_valid_first by metis
    have hd: "hd rest \<noteq> LF" "hd rest \<noteq> CR"
      using False "1.prems"(2,3) by (metis hd_in_set)+
    have u: "utf16_len rest = len_utf16 n + utf16_len (drop n rest)"
      using n(1) by (subst utf16_len.simps) simp
    have "LF \<notin> set (drop n rest)" "CR \<notin> set (drop n rest)"
      using "1.prems"(2,3) in_set_dropD by metis+
    then have "column_loop (drop n rest) t (u + len_utf16 n) (off + n) = off + n + length (drop n rest)"
      using "1.IH" [OF n(1)] hd "1.prems"(4) n(2) u by simp
    then show ?thesis
      using hd n u "1.prems"(4) by (subst column_loop.simps) simp
  qed
qed

subsection \<open>The end position\<close>

lemma utf16_len_le: "utf16_len s \<le> length s"
proof (induction s rule: utf16_len.induct)
  case (1 s)
  show ?case
  proof (cases "utf8_first s")
    case (Some n)
    then have "len_utf16 n \<le> n" "n \<le> length s"
      using utf8_first_bounds by (auto simp: len_utf16_def)
    then show ?thesis
      using 1 [OF Some] Some by (subst utf16_len.simps) simp
  qed (subst utf16_len.simps, simp)
qed

lemma end_position_loop_eq:
  assumes "utf8_valid (drop i s)" and "i \<le> length s"
  shows "end_position_loop s i p = Some (case last_line (drop i s) of
     (n, t) \<Rightarrow> \<lparr>line = line p + n, character = (if n = 0 then character p else 0) + utf16_len t\<rparr>)"
  using assms
proof (induction s i p rule: end_position_loop.induct)
  case (1 s i p)
  show ?case
  proof (cases "i < length s")
    case False
    then show ?thesis
      using "1.prems" by (subst end_position_loop.simps) (simp add: utf16_len.simps utf8_first_def)
  next
    case True
    consider "s ! i = LF" | "s ! i = CR" | "s ! i \<noteq> LF" "s ! i \<noteq> CR"
      by blast
    then show ?thesis
    proof cases
      case 1
      then show ?thesis
        using "1.IH"(1) [OF True 1] "1.prems"(1) True valid_drop_newline [of i s] reference_at_newline(3) [of i s]
        by (subst end_position_loop.simps) (simp split: prod.splits)
    next
      case 2
      then show ?thesis
        using "1.IH"(2) [OF True _ 2] "1.prems"(1) True valid_after_cr [of i s] reference_at_newline(4) [of i s]
        by (subst end_position_loop.simps) (simp split: prod.splits)
    next
      case 3
      obtain k where k: "utf8_first (drop i s) = Some k" "1 \<le> k" "i + k \<le> length s" "utf8_valid (drop (i + k) s)"
        "\<forall>n. skip_lines (Suc n) (drop i s) = k + skip_lines (Suc n) (drop (i + k) s)"
        "last_line (drop i s) = (case last_line (drop (i + k) s) of
           (n, t) \<Rightarrow> if n = 0 then (0, take k (drop i s) @ t) else (n, t))" "slice_from s i = Some (drop i s)"
        by (rule reference_at_char [OF "1.prems"(1) True 3])
      obtain n t where l: "last_line (drop (i + k) s) = (n, t)"
        by fastforce
      obtain a bs r where a: "drop i s = a # bs @ r" "k = Suc (length bs)" "\<And>u. utf8_first (a # bs @ u) = Some k"
        using k(1) by (rule utf8_first_split) blast
      have u: "utf16_len (take k (drop i s) @ t) = len_utf16 k + utf16_len t"
        using a by (subst utf16_len.simps) simp
      show ?thesis
        using "1.IH"(3) [OF True 3 k(7) k(1)] k(1-4,6,7) l u True 3
        by (subst end_position_loop.simps) simp
    qed
  qed
qed

lemma end_position_eq:
  assumes "utf8_valid s"
  shows "end_position_utf16 s
    = Some \<lparr>line = fst (last_line s), character = utf16_len (snd (last_line s))\<rparr>"
  using end_position_loop_eq [of 0 s] assms by (simp add: end_position_utf16_def split: prod.splits)

lemma last_line_breaks_le: "fst (last_line s) + length (snd (last_line s)) \<le> length s"
proof (induction s rule: last_line.induct)
  case (2 a r)
  then show ?case
    by (cases "a = LF"; cases "a = CR"; cases r; cases "hd r = LF") (auto split: prod.splits if_splits)
qed simp

subsection \<open>Positions and offsets\<close>

lemma line_start_valid: "utf8_valid s \<Longrightarrow> utf8_valid (drop (skip_lines n s) s)"
  using skip_lines_valid [of 0 s n] by simp

lemma position_to_offset_eq:
  assumes "utf8_valid s"
  shows "position_to_offset s p = Some (column_loop (drop (skip_lines (line p) s) s) (character p) 0 (skip_lines (line p) s))"
proof -
  let ?a = "skip_lines (line p) s"
  have "slice_from s ?a = Some (drop ?a s)"
    using valid_suffix_boundary [OF line_start_valid [OF assms] skip_lines_le] by (simp add: slice_from_def)
  moreover have "column_loop (drop ?a s) (character p) 0 ?a = length s" if "length s \<le> ?a"
    using that skip_lines_le [of "line p" s] by (subst column_loop.simps) simp
  ultimately show ?thesis
    by (simp add: position_to_offset_def line_start_offset_eq [OF assms])
qed

lemma position_to_offset_bounds:
  assumes "utf8_valid s" and "position_to_offset s p = Some k"
  shows "k \<le> length s \<and> utf8_valid (drop k s) \<and> k \<le> skip_lines (Suc (line p)) s \<and> skip_lines (line p) s \<le> k"
proof -
  let ?a = "skip_lines (line p) s"
  obtain j where j: "k = ?a + j" "j \<le> length (drop ?a s)" "utf8_valid (drop j (drop ?a s))"
    "j \<le> skip_lines (Suc 0) (drop ?a s)"
    using column_loop_bounds [OF line_start_valid [OF assms(1)], of "line p" "character p" 0 ?a] assms(2)
      position_to_offset_eq [OF assms(1), of p] by (metis option.inject)
  then show ?thesis
    using skip_lines_le [of "line p" s] skip_lines_add [of "line p" "Suc 0" s] by (simp add: add.commute)
qed

lemma skip_lines_mono: "m \<le> n \<Longrightarrow> skip_lines m s \<le> skip_lines n s"
  using skip_lines_add [of m "n - m" s] by simp

lemma end_position_offset:
  assumes "utf8_valid content"
  shows "\<exists>p. end_position_utf16 content = Some p \<and> position_to_offset content p = Some (length content)
    \<and> line p + character p \<le> length content"
proof -
  obtain n t where l: "last_line content = (n, t)"
    by fastforce
  let ?p = "\<lparr>line = n, character = utf16_len t\<rparr>"
  have t: "drop (skip_lines n content) content = t" "LF \<notin> set t" "CR \<notin> set t"
    using skip_last_line [OF l] by simp_all
  have "utf8_valid t"
    using line_start_valid [OF assms, of n] t(1) by simp
  then have "column_loop t (utf16_len t) 0 (skip_lines n content) = skip_lines n content + length t"
    using column_loop_full t(2,3) by simp
  moreover have "skip_lines n content + length t = length content"
    using t(1) skip_lines_le [of n content] by auto
  moreover have "n + utf16_len t \<le> length content"
    using last_line_breaks_le [of content] utf16_len_le [of t] l by simp
  ultimately show ?thesis
    using l t(1) by (intro exI [of _ ?p]) (simp add: end_position_eq [OF assms] position_to_offset_eq [OF assms])
qed

lemma position_offsets_ordered:
  assumes "utf8_valid content" and "line p < line q \<or> line p = line q \<and> character p \<le> character q"
    and "position_to_offset content p = Some a" and "position_to_offset content q = Some b"
  shows "a \<le> b"
  using assms(2)
proof
  assume "line p < line q"
  then have "a \<le> skip_lines (line q) content"
    using position_to_offset_bounds [OF assms(1,3)] skip_lines_mono [of "Suc (line p)" "line q" content] by linarith
  then show ?thesis
    using position_to_offset_bounds [OF assms(1,4)] by linarith
next
  assume "line p = line q \<and> character p \<le> character q"
  then show ?thesis
    using assms(3,4) column_loop_mono by (auto simp: position_to_offset_eq [OF assms(1)])
qed

lemma position_to_offset_zero:
  assumes "utf8_valid s"
  shows "position_to_offset s \<lparr>line = 0, character = 0\<rparr> = Some 0"
  using position_to_offset_eq [OF assms]
  by (simp add: column_loop.simps [of s 0] len_utf16_def split: option.splits)

text \<open>
  C30. Every position of a well-formed document has an offset: \<open>position_to_offset\<close> never slices
  inside a character, and its result is a character boundary within the document, at which the
  document splits into two well-formed parts.
\<close>

theorem position_to_offset_total:
  assumes "utf8_valid content"
  shows "\<exists>k. position_to_offset content pos = Some k \<and> k \<le> length content \<and> is_char_boundary content k
    \<and> utf8_valid (take k content) \<and> utf8_valid (drop k content)"
proof -
  obtain k where k: "position_to_offset content pos = Some k"
    using position_to_offset_eq [OF assms] by blast
  have b: "k \<le> length content" "utf8_valid (drop k content)"
    using position_to_offset_bounds [OF assms k] by simp_all
  then show ?thesis
    using k valid_suffix_boundary [OF b(2,1)] valid_prefix [OF assms b(2)] by blast
qed

theorem position_to_offset_total_witness:
  "\<exists>k. position_to_offset [CHR 0xC3, CHR 0xA9, LF] \<lparr>line = 0, character = 7\<rparr> = Some k
     \<and> is_char_boundary [CHR 0xC3, CHR 0xA9, LF] k"
proof -
  have "utf8_valid [CHR 0xC3, CHR 0xA9, LF]"
    by (simp add: utf8_valid.simps utf8_first_def utf8_cont_def LF_def)
  from position_to_offset_total [OF this] show ?thesis
    by blast
qed

end
