(* ===== verification/Formatter_Server.thy ===== *)
theory Formatter_Server
  imports Handshake Text_Positions
begin

text \<open>
  \<open>src/examples/formatter_server.rs\<close>: the example server. It keeps the open documents, applies
  incremental changes, answers formatting requests with an upper-case edit, and runs the message
  loop over a connection.

  What the example takes from \<open>lsp_types\<close> (the parsers and printers of its parameter structures),
  the Unicode upper-case mapping and the debug printing of a URI are the fields of \<open>lsp_api\<close>.
  \<open>None\<close> as the result of an operation is a panic.
\<close>

record range =
  range_start :: position
  range_end :: position

record content_change =
  change_range :: "range option"
  change_text :: string

record text_edit =
  edit_range :: range
  new_text :: string

datatype message_type = INFO | LOG

text \<open>The fields of \<open>ServerCapabilities\<close> that the server sets; the others have their default.\<close>

datatype text_document_sync_kind = NONE | FULL | INCREMENTAL

record lsp_capabilities =
  text_document_sync :: "text_document_sync_kind option"
  document_formatting_provider :: "bool option"

record 'u lsp_api =
  parse_did_open :: "json \<Rightarrow> ('u \<times> string \<times> i32) option"
  parse_did_change :: "json \<Rightarrow> ('u \<times> i32 \<times> content_change list) option"
  parse_did_close :: "json \<Rightarrow> 'u option"
  parse_formatting :: "json \<Rightarrow> 'u option"
  parse_client_info :: "json \<Rightarrow> string option"
  edits_value :: "text_edit list \<Rightarrow> serde_error + json"
  log_value :: "message_type \<Rightarrow> string \<Rightarrow> serde_error + json"
  capabilities_value :: "lsp_capabilities \<Rightarrow> serde_error + json"
  show_uri :: "'u \<Rightarrow> string"
  show_serde_error :: "serde_error \<Rightarrow> string"
  to_uppercase :: "string \<Rightarrow> string"

subsection \<open>Documents\<close>

record document_state =
  content :: string
  version :: i32

type_synonym 'u server_state = "'u \<rightharpoonup> document_state"

definition server_state_new :: "'u server_state" where
  "server_state_new = Map.empty"

definition apply_change :: "document_state \<Rightarrow> content_change \<Rightarrow> document_state option" where
  "apply_change doc change =
     (case change_range change of
        None \<Rightarrow> Some (doc\<lparr>content := change_text change\<rparr>)
      | Some rg \<Rightarrow>
          (case (position_to_offset (content doc) (range_start rg), position_to_offset (content doc) (range_end rg)) of
             (Some start_offset, Some end_offset) \<Rightarrow>
               if start_offset \<le> end_offset \<and> end_offset \<le> length (content doc) then
                 (case (slice_to (content doc) start_offset, slice_from (content doc) end_offset) of
                    (Some before, Some after) \<Rightarrow> Some (doc\<lparr>content := before @ change_text change @ after\<rparr>)
                  | _ \<Rightarrow> None)
               else Some doc
           | _ \<Rightarrow> None))"

fun apply_incremental_changes :: "document_state \<Rightarrow> content_change list \<Rightarrow> document_state option" where
  "apply_incremental_changes doc [] = Some doc"
| "apply_incremental_changes doc (change # changes) =
     (case apply_change doc change of
        None \<Rightarrow> None
      | Some doc' \<Rightarrow> apply_incremental_changes doc' changes)"

definition create_uppercase_edit :: "'u lsp_api \<Rightarrow> string \<Rightarrow> text_edit list option" where
  "create_uppercase_edit api s =
     (if s = [] then Some []
      else
        (case end_position_utf16 s of
           None \<Rightarrow> None
         | Some p \<Rightarrow>
             Some [\<lparr>edit_range = \<lparr>range_start = \<lparr>line = 0, character = 0\<rparr>, range_end = p\<rparr>,
                    new_text = to_uppercase api s\<rparr>]))"

definition parse_notification_params :: "(json \<Rightarrow> 'a option) \<Rightarrow> notification \<Rightarrow> 'a option" where
  "parse_notification_params parse n = Option.bind (notif_params n) parse"

definition handle_notification ::
  "'u lsp_api \<Rightarrow> 'u server_state \<Rightarrow> notification \<Rightarrow> 'u server_state option" where
  "handle_notification api st n =
     (if notif_method n = ''textDocument/didOpen'' then
        (case parse_notification_params (parse_did_open api) n of
           Some (uri, text, v) \<Rightarrow> Some (st(uri \<mapsto> \<lparr>content = text, version = v\<rparr>))
         | None \<Rightarrow> Some st)
      else if notif_method n = ''textDocument/didChange'' then
        (case parse_notification_params (parse_did_change api) n of
           Some (uri, v, changes) \<Rightarrow>
             (case st uri of
                Some doc \<Rightarrow>
                  (case apply_incremental_changes doc changes of
                     None \<Rightarrow> None
                   | Some doc' \<Rightarrow> Some (st(uri \<mapsto> doc'\<lparr>version := v\<rparr>)))
              | None \<Rightarrow> Some st)
         | None \<Rightarrow> Some st)
      else if notif_method n = ''textDocument/didClose'' then
        (case parse_notification_params (parse_did_close api) n of
           Some uri \<Rightarrow> Some (st(uri := None))
         | None \<Rightarrow> Some st)
      else Some st)"

subsection \<open>Requests\<close>

definition log_message ::
  "'u lsp_api \<Rightarrow> ('tw, 'ow, 'mw) tokio \<Rightarrow> client_sender \<Rightarrow> message_type \<Rightarrow> string
     \<Rightarrow> ('tw, 'ow, 'mw) world \<Rightarrow> ('tw, 'ow, 'mw) world" where
  "log_message api tk s typ text w =
     (case log_value api typ text of
        Inl e \<Rightarrow> w
      | Inr value \<Rightarrow> snd (notify tk s ''window/logMessage'' (Some value) w))"

datatype format_error = Cancelled | DocumentNotFound

text \<open>
  The 200 ms sleep: \<open>pause\<close> is what the other tasks do to the world in the meantime, and \<open>slept\<close>
  says that the sleep was polled first when both branches of the \<open>select!\<close> are ready.
\<close>

type_synonym ('tw, 'ow, 'mw) pause = "request_id \<Rightarrow> bool \<times> (('tw, 'ow, 'mw) world \<Rightarrow> ('tw, 'ow, 'mw) world)"

definition format_document ::
  "'u lsp_api \<Rightarrow> ('tw, 'ow, 'mw) tokio \<Rightarrow> bool \<times> (('tw, 'ow, 'mw) world \<Rightarrow> ('tw, 'ow, 'mw) world)
     \<Rightarrow> client_sender \<Rightarrow> 'u server_state \<Rightarrow> 'u \<Rightarrow> token \<Rightarrow> ('tw, 'ow, 'mw) world
     \<Rightarrow> ((format_error + text_edit list) \<times> ('tw, 'ow, 'mw) world) option" where
  "format_document api tk pause s st uri token w =
     (case st uri of
        None \<Rightarrow> Some (Inl DocumentNotFound, w)
      | Some doc \<Rightarrow>
          (let w1 = log_message api tk s LOG (''Formatting document: '' @ show_uri api uri) w;
               w2 = snd pause w1
           in if is_cancelled tk token (tokens w2) then
                Some (Inl Cancelled, if fst pause then w2 else log_message api tk s LOG ''Formatting cancelled'' w2)
              else
                (case create_uppercase_edit api (content doc) of
                   None \<Rightarrow> None
                 | Some edits \<Rightarrow>
                     Some (Inr edits, log_message api tk s LOG
                       (''Formatting complete: '' @ show_nat (length edits) @ '' edits'') w2))))"

definition handle_request ::
  "'u lsp_api \<Rightarrow> ('tw, 'ow, 'mw) tokio \<Rightarrow> ('tw, 'ow, 'mw) pause \<Rightarrow> client_sender \<Rightarrow> 'u server_state
     \<Rightarrow> request \<Rightarrow> token \<Rightarrow> ('tw, 'ow, 'mw) world \<Rightarrow> (response \<times> ('tw, 'ow, 'mw) world) option" where
  "handle_request api tk pause s st req token w =
     (if req_method req = ''textDocument/formatting'' then
        (case Option.bind (req_params req) (parse_formatting api) of
           None \<Rightarrow>
             Some (response_err (req_id req) (response_error_new InvalidParams ''Invalid formatting params''), w)
         | Some uri \<Rightarrow>
             (case format_document api tk (pause (req_id req)) s st uri token w of
                None \<Rightarrow> None
              | Some (Inr edits, w') \<Rightarrow>
                  (case edits_value api edits of
                     Inr v \<Rightarrow> Some (response_ok (req_id req) v, w')
                   | Inl e \<Rightarrow>
                       Some (response_err (req_id req) (response_error_new InternalError
                         (''Failed to serialize formatting edits: expected JSON value, ''
                           @ ''received serialization error: '' @ show_serde_error api e)), w'))
              | Some (Inl Cancelled, w') \<Rightarrow> Some (cancelled_response (req_id req), w')
              | Some (Inl DocumentNotFound, w') \<Rightarrow>
                  Some (response_err (req_id req) (response_error_new InvalidParams ''Document not found''), w')))
      else Some (method_not_found_response req, w))"

subsection \<open>The message loop\<close>

text \<open>How \<open>run_server\<close> ends: waiting for input, at the end of the loop, by a process exit, by a panic.\<close>

datatype server_end = Waiting | Loop_ended | Process_exit i32 | Panicked

fun run_server_loop ::
  "'u lsp_api \<Rightarrow> ('tw, 'ow, 'mw) tokio \<Rightarrow> ('tw, 'ow, 'mw) pause \<Rightarrow> client_sender \<Rightarrow> recv_event list
     \<Rightarrow> 'u server_state \<Rightarrow> connection \<Rightarrow> ('tw, 'ow, 'mw) world
     \<Rightarrow> server_end \<times> 'u server_state \<times> connection \<times> ('tw, 'ow, 'mw) world" where
  "run_server_loop api tk pause s [] st c w = (Waiting, st, c, w)"
| "run_server_loop api tk pause s (Elapsed # es) st c w = run_server_loop api tk pause s es st c w"
| "run_server_loop api tk pause s (Next None # es) st c w = (Loop_ended, st, c, w)"
| "run_server_loop api tk pause s (Next (Some (Inl e)) # es) st c w = (Loop_ended, st, c, w)"
| "run_server_loop api tk pause s (Next (Some (Inr msg)) # es) st c w =
     (case route tk c msg w of
        (IncomingRequest req token, c1, w1) \<Rightarrow>
          if req_method req = shutdown_method then
            (case handle_shutdown tk c1 (req_id req) w1 of
               (_, c2, w2) \<Rightarrow> run_server_loop api tk pause s es st c2 w2)
          else
            (case handle_request api tk pause s st req token w1 of
               None \<Rightarrow> (Panicked, st, c1, w1)
             | Some (response, w2) \<Rightarrow>
                 (case respond tk s response w2 of
                    (Inl _, w3) \<Rightarrow> (Loop_ended, st, c1, w3)
                  | (Inr _, w3) \<Rightarrow>
                      run_server_loop api tk pause s es st
                        (c1\<lparr>conn_queue := (conn_queue c1)
                             \<lparr>incoming := snd (incoming_complete (incoming (conn_queue c1)) (req_id req))\<rparr>\<rparr>) w3))
      | (IncomingNotification n, c1, w1) \<Rightarrow>
          if notif_method n = exit_method then
            (case handle_exit c1 of (code, c2) \<Rightarrow> (Process_exit (exit_code_to_i32 code), st, c2, w1))
          else
            (case handle_notification api st n of
               None \<Rightarrow> (Panicked, st, c1, w1)
             | Some st' \<Rightarrow> run_server_loop api tk pause s es st' c1 w1)
      | (_, c1, w1) \<Rightarrow> run_server_loop api tk pause s es st c1 w1)"

definition run_server ::
  "'u lsp_api \<Rightarrow> ('tw, 'ow, 'mw) tokio \<Rightarrow> ('tw, 'ow, 'mw) pause \<Rightarrow> connection \<Rightarrow> client_sender
     \<Rightarrow> ('tw, 'ow, 'mw) world \<Rightarrow> server_end \<times> 'u server_state \<times> connection \<times> ('tw, 'ow, 'mw) world" where
  "run_server api tk pause c s w =
     run_server_loop api tk pause s (receiver c) server_state_new c
       (log_message api tk s INFO ''Formatter server ready'' w)"

definition server_capabilities :: lsp_capabilities where
  "server_capabilities = \<lparr>text_document_sync = Some INCREMENTAL, document_formatting_provider = Some True\<rparr>"

text \<open>\<open>main\<close>: \<open>None\<close> when it returns without running the server or still waits for the handshake.\<close>

definition server_main ::
  "'u lsp_api \<Rightarrow> ('tw, 'ow, 'mw) tokio \<Rightarrow> ('tw, 'ow, 'mw) pause \<Rightarrow> connection \<Rightarrow> ('tw, 'ow, 'mw) world
     \<Rightarrow> (server_end \<times> 'u server_state \<times> connection \<times> ('tw, 'ow, 'mw) world) option" where
  "server_main api tk pause c w =
     (case capabilities_value api server_capabilities of
        Inl e \<Rightarrow> None
      | Inr capabilities \<Rightarrow>
          (case initialize tk c capabilities w of
             (Ready (Inr params), c1, w1) \<Rightarrow>
               (let (s, c2, w2) = conn_client_sender c1 w1;
                    w3 = (case parse_client_info api params of
                            Some info \<Rightarrow> log_message api tk s INFO (''Client initialized: '' @ info) w2
                          | None \<Rightarrow> w2)
                in Some (run_server api tk pause c2 s w3))
           | _ \<Rightarrow> None))"

subsection \<open>Changes\<close>

lemma apply_change_ranged:
  assumes "utf8_valid (content doc)" and "change_range ch = Some rg"
  shows "\<exists>a b. position_to_offset (content doc) (range_start rg) = Some a
    \<and> position_to_offset (content doc) (range_end rg) = Some b \<and> a \<le> length (content doc) \<and> b \<le> length (content doc)
    \<and> utf8_valid (take a (content doc)) \<and> utf8_valid (drop b (content doc))
    \<and> apply_change doc ch
        = Some (if a \<le> b then doc\<lparr>content := take a (content doc) @ change_text ch @ drop b (content doc)\<rparr> else doc)"
proof -
  obtain a b where ab: "position_to_offset (content doc) (range_start rg) = Some a"
    "position_to_offset (content doc) (range_end rg) = Some b"
    using position_to_offset_eq [OF assms(1)] by blast
  have a: "a \<le> length (content doc)" "utf8_valid (drop a (content doc))"
    using position_to_offset_bounds [OF assms(1) ab(1)] by simp_all
  have b: "b \<le> length (content doc)" "utf8_valid (drop b (content doc))"
    using position_to_offset_bounds [OF assms(1) ab(2)] by simp_all
  show ?thesis
    using ab a b valid_prefix [OF assms(1) a(2)] valid_suffix_boundary [OF a(2,1)] valid_suffix_boundary [OF b(2,1)]
      assms(2) by (simp add: apply_change_def slice_to_def slice_from_def)
qed

lemma apply_change_valid:
  assumes "utf8_valid (content doc)" and "utf8_valid (change_text ch)"
  shows "\<exists>doc'. apply_change doc ch = Some doc' \<and> utf8_valid (content doc') \<and> version doc' = version doc"
proof (cases "change_range ch")
  case None
  then show ?thesis
    using assms by (simp add: apply_change_def)
next
  case (Some rg)
  then show ?thesis
    using apply_change_ranged [OF assms(1) Some] assms by (auto simp: utf8_valid_append)
qed

lemma apply_changes_valid:
  assumes "utf8_valid (content doc)" and "\<forall>ch\<in>set chs. utf8_valid (change_text ch)"
  shows "\<exists>doc'. apply_incremental_changes doc chs = Some doc' \<and> utf8_valid (content doc') \<and> version doc' = version doc"
  using assms
proof (induction chs arbitrary: doc)
  case (Cons ch chs)
  obtain d where d: "apply_change doc ch = Some d" "utf8_valid (content d)" "version d = version doc"
    using apply_change_valid [OF Cons.prems(1)] Cons.prems(2) by auto
  then show ?case
    using Cons.IH [OF d(2)] Cons.prems(2) by auto
qed simp


definition ref_doc :: document_state where
  "ref_doc = \<lparr>content = ''ab'', version = 1\<rparr>"

definition ref_change :: content_change where
  "ref_change = \<lparr>change_range = Some \<lparr>range_start = \<lparr>line = 0, character = 1\<rparr>, range_end = \<lparr>line = 0, character = 2\<rparr>\<rparr>,
     change_text = ''x''\<rparr>"

lemma ref_doc_valid: "utf8_valid (content ref_doc)"
  by (simp add: ref_doc_def utf8_valid.simps utf8_first_def)



subsection \<open>A reference interface\<close>

text \<open>
  Parsers and printers in the form that the protocol documents: parameters name the document by
  \<open>textDocument.uri\<close>, positions are objects with \<open>line\<close> and \<open>character\<close>. A URI is a string.
\<close>

definition json_nat :: "nat \<Rightarrow> json" where
  "json_nat n = JNumber (PosInt (of_nat n))"

definition get_str :: "json \<Rightarrow> string \<Rightarrow> string option" where
  "get_str v k = Option.bind (value_get v k) (\<lambda>x. Option.bind (as_str x) (\<lambda>s. if utf8_valid s then Some s else None))"

definition get_nat :: "json \<Rightarrow> string \<Rightarrow> nat option" where
  "get_nat v k = (case value_get v k of Some (JNumber (PosInt n)) \<Rightarrow> Some (unat n) | _ \<Rightarrow> None)"

definition ref_uri :: "json \<Rightarrow> string option" where
  "ref_uri v = Option.bind (value_get v ''textDocument'') (\<lambda>d. get_str d ''uri'')"

definition ref_did_open :: "json \<Rightarrow> (string \<times> string \<times> i32) option" where
  "ref_did_open v = Option.bind (value_get v ''textDocument'') (\<lambda>d.
     case (get_str d ''uri'', get_str d ''text'', get_nat d ''version'') of
       (Some u, Some t, Some n) \<Rightarrow> Some (u, t, of_nat n)
     | _ \<Rightarrow> None)"

definition ref_position :: "json \<Rightarrow> position option" where
  "ref_position v = (case (get_nat v ''line'', get_nat v ''character'') of
     (Some l, Some c) \<Rightarrow> Some \<lparr>line = l, character = c\<rparr> | _ \<Rightarrow> None)"

definition ref_content_change :: "json \<Rightarrow> content_change option" where
  "ref_content_change v = Option.bind (get_str v ''text'') (\<lambda>t.
     case value_get v ''range'' of
       None \<Rightarrow> Some \<lparr>change_range = None, change_text = t\<rparr>
     | Some r \<Rightarrow>
         (case (Option.bind (value_get r ''start'') ref_position, Option.bind (value_get r ''end'') ref_position) of
            (Some a, Some b) \<Rightarrow> Some \<lparr>change_range = Some \<lparr>range_start = a, range_end = b\<rparr>, change_text = t\<rparr>
          | _ \<Rightarrow> None))"

definition ref_did_change :: "json \<Rightarrow> (string \<times> i32 \<times> content_change list) option" where
  "ref_did_change v =
     (case (ref_uri v, Option.bind (value_get v ''textDocument'') (\<lambda>d. get_nat d ''version''), value_get v ''contentChanges'') of
        (Some u, Some n, Some (JArray cs)) \<Rightarrow>
          let chs = map ref_content_change cs
          in if None \<in> set chs then None else Some (u, of_nat n, map the chs)
      | _ \<Rightarrow> None)"

definition ref_position_value :: "position \<Rightarrow> json" where
  "ref_position_value p = JObject [(''character'', json_nat (character p)), (''line'', json_nat (line p))]"

definition ref_edit_value :: "text_edit \<Rightarrow> json" where
  "ref_edit_value e = JObject [(''newText'', JString (new_text e)), (''range'', JObject
     [(''end'', ref_position_value (range_end (edit_range e))), (''start'', ref_position_value (range_start (edit_range e)))])]"

definition ref_log_value :: "message_type \<Rightarrow> string \<Rightarrow> json" where
  "ref_log_value t s = JObject [(''message'', JString s), (''type'', json_nat (case t of INFO \<Rightarrow> 3 | LOG \<Rightarrow> 4))]"

definition ref_capabilities_value :: "lsp_capabilities \<Rightarrow> json" where
  "ref_capabilities_value c = JObject
     ((case document_formatting_provider c of None \<Rightarrow> [] | Some b \<Rightarrow> [(''documentFormattingProvider'', JBool b)])
      @ (case text_document_sync c of None \<Rightarrow> []
         | Some k \<Rightarrow> [(''textDocumentSync'', json_nat (case k of NONE \<Rightarrow> 0 | FULL \<Rightarrow> 1 | INCREMENTAL \<Rightarrow> 2))]))"

definition ref_api :: "string lsp_api" where
  "ref_api = \<lparr>parse_did_open = ref_did_open, parse_did_change = ref_did_change, parse_did_close = ref_uri,
     parse_formatting = ref_uri, parse_client_info = (\<lambda>_. None),
     edits_value = (\<lambda>es. Inr (JArray (map ref_edit_value es))), log_value = (\<lambda>t s. Inr (ref_log_value t s)),
     capabilities_value = (\<lambda>c. Inr (ref_capabilities_value c)), show_uri = (\<lambda>u. u), show_serde_error = (\<lambda>_. []),
     to_uppercase = map (\<lambda>c. if 97 \<le> byte_val c \<and> byte_val c \<le> 122 then char_of (byte_val c - 32) else c)\<rparr>"


subsection \<open>The server\<close>

text \<open>The ids of the responses among the messages sent.\<close>

fun response_ids :: "message list \<Rightarrow> request_id option list" where
  "response_ids [] = []"
| "response_ids (Response r # ms) = resp_id r # response_ids ms"
| "response_ids (_ # ms) = response_ids ms"

lemma response_ids_append [simp]: "response_ids (xs @ ys) = response_ids xs @ response_ids ys"
  by (induction xs rule: response_ids.induct) simp_all

text \<open>The requests that reach the loop before it ends.\<close>

fun served :: "recv_event list \<Rightarrow> request list" where
  "served [] = []"
| "served (Elapsed # es) = served es"
| "served (Next (Some (Inr (Request r))) # es) = r # served es"
| "served (Next (Some (Inr (Notification n))) # es) = (if notif_method n = ''exit'' then [] else served es)"
| "served (Next (Some (Inr (Response r))) # es) = served es"
| "served (Next _ # es) = []"

definition documents_ok :: "'u server_state \<Rightarrow> bool" where
  "documents_ok st \<longleftrightarrow> (\<forall>u d. st u = Some d \<longrightarrow> utf8_valid (content d))"

text \<open>The texts that the parsers return are Rust strings.\<close>

definition api_texts_ok :: "'u lsp_api \<Rightarrow> bool" where
  "api_texts_ok api \<longleftrightarrow>
     (\<forall>j u t v. parse_did_open api j = Some (u, t, v) \<longrightarrow> utf8_valid t)
     \<and> (\<forall>j u v chs. parse_did_change api j = Some (u, v, chs) \<longrightarrow> (\<forall>ch\<in>set chs. utf8_valid (change_text ch)))"

text \<open>The values that the serialisers return are of the type \<open>Value\<close>.\<close>

definition api_values_ok :: "'u lsp_api \<Rightarrow> bool" where
  "api_values_ok api \<longleftrightarrow>
     (\<forall>es v. edits_value api es = Inr v \<longrightarrow> is_value v)
     \<and> (\<forall>t s v. log_value api t s = Inr v \<longrightarrow> is_value v) \<and> (\<forall>c v. capabilities_value api c = Inr v \<longrightarrow> is_value v)"

lemma get_str_valid: "get_str v k = Some s \<Longrightarrow> utf8_valid s"
  by (auto simp: get_str_def bind_eq_Some_conv split: if_splits)

lemma ref_api_ok: "api_texts_ok ref_api" "api_values_ok ref_api"
proof -
  have open_ok: "utf8_valid t" if opened: "ref_did_open j = Some (u, t, v)" for j u t v
  proof -
    obtain d where "(case (get_str d ''uri'', get_str d ''text'', get_nat d ''version'') of
        (Some u, Some t, Some n) \<Rightarrow> Some (u, t, of_nat n :: i32) | _ \<Rightarrow> None) = Some (u, t, v)"
      using opened by (auto simp: ref_did_open_def bind_eq_Some_conv)
    then show ?thesis
      using get_str_valid [of d "''text''"] by (auto split: option.splits)
  qed
  have change: "utf8_valid (change_text ch)" if "ref_content_change j = Some ch" for j ch
    using that get_str_valid [of j "''text''"]
    by (cases "get_str j ''text''") (auto simp: ref_content_change_def split: option.splits)
  have "utf8_valid (change_text ch)" if changed: "ref_did_change j = Some (u, v, chs)" "ch \<in> set chs" for j u v chs ch
  proof -
    obtain cs where cs: "None \<notin> set (map ref_content_change cs)" "chs = map the (map ref_content_change cs)"
      using changed(1) by (auto simp: ref_did_change_def Let_def split: option.splits json.splits if_splits)
    then obtain c where "ref_content_change c = Some ch"
      using changed(2) by (force simp: image_iff)
    then show ?thesis
      by (rule change)
  qed
  with open_ok show "api_texts_ok ref_api"
    by (simp add: api_texts_ok_def ref_api_def)
  have "(''character'' :: string) < ''line''" "(''message'' :: string) < ''type''" "(''newText'' :: string) < ''range''"
    "(''end'' :: string) < ''start''" "(''documentFormattingProvider'' :: string) < ''textDocumentSync''"
    by code_simp+
  then show "api_values_ok ref_api"
    by (auto simp: api_values_ok_def ref_api_def ref_edit_value_def ref_position_value_def ref_log_value_def
        ref_capabilities_value_def json_nat_def split: option.split)
qed

lemma handle_notification_ok:
  assumes "api_texts_ok api" and "documents_ok st"
  shows "\<exists>st'. handle_notification api st n = Some st' \<and> documents_ok st'"
proof -
  have change: "\<exists>st'. (case st u of
        Some doc \<Rightarrow> (case apply_incremental_changes doc chs of None \<Rightarrow> None | Some doc' \<Rightarrow> Some (st(u \<mapsto> doc'\<lparr>version := v\<rparr>)))
      | None \<Rightarrow> Some st) = Some st' \<and> documents_ok st'"
    if "parse_did_change api j = Some (u, v, chs)" for j u v chs
  proof (cases "st u")
    case (Some doc)
    then have "utf8_valid (content doc)" "\<forall>ch\<in>set chs. utf8_valid (change_text ch)"
      using assms that by (auto simp: documents_ok_def api_texts_ok_def)
    then obtain doc' where "apply_incremental_changes doc chs = Some doc'" "utf8_valid (content doc')"
      using apply_changes_valid by blast
    then show ?thesis
      using Some assms(2) by (auto simp: documents_ok_def)
  qed (use assms(2) in simp)
  consider "notif_method n = ''textDocument/didOpen''" | "notif_method n = ''textDocument/didChange''"
    | "notif_method n \<noteq> ''textDocument/didOpen''" "notif_method n \<noteq> ''textDocument/didChange''"
    by blast
  then show ?thesis
  proof cases
    case 1
    then show ?thesis
      using assms by (auto simp: handle_notification_def parse_notification_params_def documents_ok_def
          api_texts_ok_def split: option.splits Option.bind_splits)
  next
    case 2
    show ?thesis
    proof (cases "parse_notification_params (parse_did_change api) n")
      case None
      then show ?thesis
        using 2 assms(2) by (simp add: handle_notification_def)
    next
      case (Some x)
      obtain u v chs where x: "x = (u, v, chs)"
        by (metis prod_cases3)
      with Some obtain j where "parse_did_change api j = Some (u, v, chs)"
        by (auto simp: parse_notification_params_def bind_eq_Some_conv)
      from change [OF this] show ?thesis
        using 2 Some x by (simp add: handle_notification_def)
    qed
  next
    case 3
    then show ?thesis
      using assms(2) by (auto simp: handle_notification_def documents_ok_def split: option.splits)
  qed
qed

lemma create_edit_total: "utf8_valid s \<Longrightarrow> \<exists>edits. create_uppercase_edit api s = Some edits"
  using end_position_offset [of s] by (auto simp: create_uppercase_edit_def)

lemmas error_response_simps =
  response_err_def response_error_new_def response_error_wf_def method_not_found_response_def cancelled_response_def

text \<open>
  What may happen while the formatting handler sleeps: the drain task may write messages, tokens
  and channels may change, but nothing is sent to the client and the drain task does not end.
\<close>

definition quiet ::
  "('mw \<Rightarrow> message list) \<Rightarrow> ('mw \<Rightarrow> bool) \<Rightarrow> (('tw, 'ow, 'mw) world \<Rightarrow> ('tw, 'ow, 'mw) world) \<Rightarrow> bool" where
  "quiet sent live f \<longleftrightarrow> (\<forall>v. live (outbound v) \<longrightarrow>
     live (outbound (f v)) \<and> sent (outbound (f v)) = sent (outbound v))"

lemma quiet_id: "quiet sent live (\<lambda>v. v)"
  by (simp add: quiet_def)

context outbound_history
begin

text \<open>A run of the drain task that does not end is quiet.\<close>

lemma drain_task_sent:
  assumes "drain_task tk alive gone rs w = (ms, False, w')"
  shows "sent (outbound w') = sent (outbound w) \<and> taken (outbound w') = taken (outbound w) @ ms
    \<and> live (outbound w') = live (outbound w)"
proof -
  have "sent (outbound w') = sent (outbound w)"
    using assms
  proof (induction rs arbitrary: w ms)
    case (Cons r rs)
    obtain m mw where m: "mpsc_recv tk (outbound w) = (m, mw)"
      by fastforce
    have mw: "sent mw = sent (outbound w)"
      using recv_sent [OF m] .
    show ?case
    proof (cases m)
      case None
      then show ?thesis
        using Cons.prems m mw by (auto split: if_splits)
    next
      case (Some x)
      obtain ms1 e1 w1 where d: "drain_task tk alive gone rs (w\<lparr>outbound := mw\<rparr>) = (ms1, e1, w1)"
        by (metis prod_cases3)
      then show ?thesis
        using Cons.prems Cons.IH [of "w\<lparr>outbound := mw\<rparr>" ms1] m mw Some by (cases r) auto
    qed
  qed simp
  then show ?thesis
    using drain_task_order [OF assms] by (simp add: sent_split)
qed

end

context outbound_sends
begin

text \<open>
  From \<open>w\<close> to \<open>w'\<close> the channel stayed open, exactly the responses \<open>ids\<close> were sent, and whatever was
  sent is well-formed. Only the laws of sending are used, so that \<open>queued\<close> can also be the list of
  everything that was ever sent.
\<close>

definition answers ::
  "'u lsp_api \<Rightarrow> ('tw, 'ow, 'mw) world \<Rightarrow> ('tw, 'ow, 'mw) world \<Rightarrow> request_id option list \<Rightarrow> bool" where
  "answers api w w' ids \<longleftrightarrow> live (outbound w')
     \<and> (\<exists>new. queued (outbound w') = queued (outbound w) @ new \<and> response_ids new = ids
          \<and> (api_values_ok api \<longrightarrow> (\<forall>m\<in>set new. message_wf m)))"

lemma answers_trans: "answers api w w1 xs \<Longrightarrow> answers api w1 w2 ys \<Longrightarrow> answers api w w2 (xs @ ys)"
  by (auto simp: answers_def)

lemma answers_same: "live (outbound w) \<Longrightarrow> outbound w' = outbound w \<Longrightarrow> answers api w w' []"
  by (simp add: answers_def exI [of _ "[]"])

lemma answers_quiet: "answers api w w1 ids \<Longrightarrow> quiet queued live f \<Longrightarrow> answers api w (f w1) ids"
  by (auto simp: answers_def quiet_def)

lemma outbound_send_answers:
  assumes "live (outbound w)" and "outbound_send tk m w = (ok, w')" and "api_values_ok api \<Longrightarrow> message_wf m"
  shows "ok \<and> answers api w w' (response_ids [m])"
  using assms send_live [OF assms(1)] by (auto simp: outbound_send_def answers_def split: prod.splits)

lemma log_message_answers:
  assumes "live (outbound w)"
  shows "answers api w (log_message api tk s typ text w) []"
proof (cases "log_value api typ text")
  case (Inl e)
  then show ?thesis
    using assms by (simp add: log_message_def answers_same)
next
  case (Inr v)
  obtain ok w' where "outbound_send tk (Notification (notification_new ''window/logMessage'' (Some v))) w = (ok, w')"
    by fastforce
  moreover have "api_values_ok api \<Longrightarrow> message_wf (Notification (notification_new ''window/logMessage'' (Some v)))"
    using Inr by (simp add: api_values_ok_def notification_new_def opt_value_wf_def)
  ultimately show ?thesis
    using outbound_send_answers [OF assms] Inr by (fastforce simp: log_message_def notify_def)
qed

lemma respond_answers:
  assumes "live (outbound w)" and "respond tk s r w = (x, w')" and "api_values_ok api \<Longrightarrow> message_wf (Response r)"
  shows "x = Inr () \<and> answers api w w' [resp_id r]"
proof -
  obtain ok w1 where o: "outbound_send tk (Response r) w = (ok, w1)"
    by fastforce
  show ?thesis
    using assms(2) o outbound_send_answers [OF assms(1) o, of api] assms(3) by (simp add: respond_def)
qed

lemma shutdown_answers:
  assumes "live (outbound w)" and "handle_shutdown tk c i w = (x, c', w')"
  shows "answers api w w' [Some i]"
proof -
  let ?w1 = "w\<lparr>tokens := token_cancel tk (conn_shutdown_token c) (tokens w)\<rparr>"
  obtain y w2 where o: "conn_send tk (Response (response_ok i JNull)) ?w1 = (y, w2)"
    by fastforce
  have "y = Inr () \<and> live (outbound w2) \<and> queued (outbound w2) = queued (outbound w) @ [Response (response_ok i JNull)]"
    using start_loop.conn_send_live [OF _ o] assms(1) by simp
  then show ?thesis
    using assms(2) o by (auto simp: handle_shutdown_def answers_def response_ok_def)
qed

end

context outbound_sends
begin

lemma format_document_answers:
  assumes "documents_ok st" and "live (outbound w)" and "quiet queued live (snd pause)"
  shows "\<exists>x w'. format_document api tk pause s st uri t w = Some (x, w') \<and> answers api w w' []"
proof (cases "st uri")
  case None
  then show ?thesis
    using assms(2) by (simp add: format_document_def answers_same)
next
  case (Some doc)
  let ?w2 = "snd pause (log_message api tk s LOG (''Formatting document: '' @ show_uri api uri) w)"
  have w2: "answers api w ?w2 []"
    using answers_quiet [OF log_message_answers [OF assms(2)] assms(3)] .
  have l2: "live (outbound ?w2)"
    using w2 by (simp add: answers_def)
  have more: "answers api w (log_message api tk s LOG msg ?w2) []" for msg
    using answers_trans [OF w2 log_message_answers [OF l2]] by simp
  obtain edits where "create_uppercase_edit api (content doc) = Some edits"
    using create_edit_total [of "content doc" api] assms(1) Some unfolding documents_ok_def by blast
  then show ?thesis
    using Some w2 more by (simp add: format_document_def Let_def)
qed

lemma handle_request_answers:
  assumes "documents_ok st" and "live (outbound w)" and "\<And>i. quiet queued live (snd (pause i))"
  shows "\<exists>r w'. handle_request api tk pause s st req t w = Some (r, w') \<and> resp_id r = Some (req_id req)
    \<and> (api_values_ok api \<longrightarrow> message_wf (Response r)) \<and> answers api w w' []"
proof (cases "req_method req = ''textDocument/formatting'' \<and> Option.bind (req_params req) (parse_formatting api) \<noteq> None")
  case False
  then show ?thesis
    using assms(2) answers_same
    by (auto simp: handle_request_def error_response_simps)
next
  case True
  then obtain uri where uri: "Option.bind (req_params req) (parse_formatting api) = Some uri"
    by blast
  obtain x w' where f: "format_document api tk (pause (req_id req)) s st uri t w = Some (x, w')" "answers api w w' []"
    using format_document_answers [OF assms(1,2), of "pause (req_id req)"] assms(3) by blast
  show ?thesis
  proof (cases x)
    case (Inl e)
    then show ?thesis
      using True uri f by (cases e) (simp_all add: handle_request_def error_response_simps)
  next
    case (Inr edits)
    then show ?thesis
      using True uri f
      by (cases "edits_value api edits") (simp_all add: handle_request_def response_ok_def error_response_simps api_values_ok_def)
  qed
qed

lemma route_answers:
  assumes "live (outbound w)" and "route tk c m w = (r, c', w')"
  shows "answers api w w' [] \<and> (\<forall>req. m = Request req \<longrightarrow> (\<exists>t. r = IncomingRequest req t))
    \<and> (\<forall>n. m = Notification n \<longrightarrow> r = IncomingNotification n \<or> r = CancelHandled \<and> notif_method n \<noteq> ''exit'')
    \<and> (\<forall>x. m = Response x \<longrightarrow> r = ResponseRouted \<or> r = ResponseUnknown x)"
proof -
  have "outbound w' = outbound w"
  proof (cases m)
    case (Request req)
    then show ?thesis
      using assms(2) by (auto simp: route_request_def Let_def split: prod.splits)
  next
    case (Notification n)
    then show ?thesis
      using assms(2) route_notification_shape [of tk c n w r c' w'] by auto
  next
    case (Response x)
    then show ?thesis
      using assms(2) route_response_shape [of tk c x w r c' w'] by (cases "response_target c w x") auto
  qed
  moreover have "r = ResponseRouted \<or> r = ResponseUnknown x" if "m = Response x" for x
    using assms(2) that route_response_shape [of tk c x w r c' w'] by (cases "response_target c w x") auto
  ultimately show ?thesis
    using assms answers_same [OF assms(1)]
    by (auto simp: route_request_def route_notification_def cancel_request_method_def Let_def
        split: prod.splits if_splits option.splits)
qed

lemma run_server_loop_answers:
  assumes "api_texts_ok api" and "\<And>i. quiet queued live (snd (pause i))"
    and "documents_ok st" and "live (outbound w)"
    and "run_server_loop api tk pause s es st c w = (e, st', c', w')"
  shows "e \<noteq> Panicked \<and> answers api w w' (map (\<lambda>r. Some (req_id r)) (served es))"
  using assms(3-5)
proof (induction es arbitrary: st c w)
  case Nil
  then show ?case
    using answers_same by auto
next
  case (Cons ev es)
  have step: "e \<noteq> Panicked \<and> answers api w w' (ids @ map (\<lambda>r. Some (req_id r)) (served es))"
    if "answers api w w1 ids" "documents_ok st1" "run_server_loop api tk pause s es st1 c1 w1 = (e, st', c', w')"
    for w1 st1 c1 ids
    using Cons.IH [OF that(2) _ that(3)] that(1) answers_trans [OF that(1)] by (simp add: answers_def)
  show ?case
  proof (cases ev rule: recv_event_cases)
    case (Request req)
    obtain r c1 w1 where rt: "route tk c (Request req) w = (r, c1, w1)"
      by (metis prod_cases3)
    then obtain t where a: "r = IncomingRequest req t" "answers api w w1 []"
      using route_answers [OF Cons.prems(2) rt] by blast
    then have l1: "live (outbound w1)"
      by (simp add: answers_def)
    show ?thesis
    proof (cases "req_method req = shutdown_method")
      case True
      obtain y c2 w2 where h: "handle_shutdown tk c1 (req_id req) w1 = (y, c2, w2)"
        by (metis prod_cases3)
      have "answers api w w2 [Some (req_id req)]"
        using answers_trans [OF a(2) shutdown_answers [OF l1 h]] by simp
      moreover have "run_server_loop api tk pause s es st c2 w2 = (e, st', c', w')"
        using Cons.prems(3) Request rt a(1) True h by simp
      ultimately show ?thesis
        using step [of w2 "[Some (req_id req)]" st c2] Cons.prems(1) Request by simp
    next
      case False
      obtain resp w2 where h: "handle_request api tk pause s st req t w1 = Some (resp, w2)"
        "resp_id resp = Some (req_id req)" "answers api w1 w2 []" "api_values_ok api \<Longrightarrow> message_wf (Response resp)"
        using handle_request_answers [OF Cons.prems(1) l1, of pause] assms(2) by blast
      obtain y w3 where p: "respond tk s resp w2 = (y, w3)"
        by fastforce
      have "live (outbound w2)"
        using h(3) by (simp add: answers_def)
      then have "y = Inr () \<and> answers api w2 w3 [Some (req_id req)]"
        using respond_answers [OF _ p, of api] h(2,4) by simp
      then have w3: "y = Inr ()" "answers api w w3 [Some (req_id req)]"
        using answers_trans [OF answers_trans [OF a(2) h(3)]] by auto
      have "\<exists>c2. run_server_loop api tk pause s es st c2 w3 = (e, st', c', w')"
        using Cons.prems(3) Request rt a(1) False h(1) p w3(1) by auto
      then show ?thesis
        using step [OF w3(2) Cons.prems(1)] Request by auto
    qed
  next
    case (Notification n)
    obtain r c1 w1 where rt: "route tk c (Notification n) w = (r, c1, w1)"
      by (metis prod_cases3)
    have a: "answers api w w1 []" "r = IncomingNotification n \<or> r = CancelHandled \<and> notif_method n \<noteq> ''exit''"
      using route_answers [OF Cons.prems(2) rt] by blast+
    obtain st1 where n: "handle_notification api st n = Some st1" "documents_ok st1"
      using handle_notification_ok [OF assms(1) Cons.prems(1)] by blast
    show ?thesis
    proof (cases "notif_method n = ''exit''")
      case True
      then show ?thesis
        using Cons.prems(3) Notification rt a by (auto simp: exit_method_def split: prod.splits)
    next
      case False
      then have "\<exists>st2. documents_ok st2 \<and> run_server_loop api tk pause s es st2 c1 w1 = (e, st', c', w')"
        using Cons.prems(1,3) Notification rt a(2) n by (auto simp: exit_method_def)
      then show ?thesis
        using step [OF a(1)] Notification False by auto
    qed
  next
    case (Response x)
    obtain r c1 w1 where rt: "route tk c (Response x) w = (r, c1, w1)"
      by (metis prod_cases3)
    have a: "answers api w w1 []" "r = ResponseRouted \<or> r = ResponseUnknown x"
      using route_answers [OF Cons.prems(2) rt] by blast+
    then have "run_server_loop api tk pause s es st c1 w1 = (e, st', c', w')"
      using Cons.prems(3) Response rt by auto
    then show ?thesis
      using step [OF a(1) Cons.prems(1)] Response by simp
  qed (use Cons in \<open>auto simp: answers_same\<close>)
qed

lemma run_server_answers:
  assumes "live (outbound w)" and "api_texts_ok api" and "\<And>i. quiet queued live (snd (pause i))"
    and "run_server api tk pause c s w = (e, st, c', w')"
  shows "e \<noteq> Panicked \<and> answers api w w' (map (\<lambda>r. Some (req_id r)) (served (receiver c)))"
proof -
  let ?w1 = "log_message api tk s INFO ''Formatter server ready'' w"
  have ready: "answers api w ?w1 []"
    using log_message_answers [OF assms(1)] .
  then have "live (outbound ?w1)"
    by (simp add: answers_def)
  then have "e \<noteq> Panicked \<and> answers api ?w1 w' (map (\<lambda>r. Some (req_id r)) (served (receiver c)))"
    using run_server_loop_answers [OF assms(2), of pause server_state_new ?w1 s "receiver c" c e st c' w']
      assms(3,4) by (simp add: run_server_def server_state_new_def documents_ok_def)
  then show ?thesis
    using answers_trans [OF ready] by fastforce
qed

end


text \<open>
  A session on a channel with history, in which the drain task writes whatever is queued while the
  formatting handler sleeps.
\<close>

definition hist_world :: "(ref_tokens, oneshot_result list, message list \<times> message list \<times> bool) world" where
  "hist_world = \<lparr>tokens = tokens ref_conn_world, oneshots = [], outbound = ([], [], True),
     response_maps = (\<lambda>_. Map.empty), id_counters = (\<lambda>_. 1), next_ref = 2\<rparr>"

definition hist_pause ::
  "(ref_tokens, oneshot_result list, message list \<times> message list \<times> bool) pause" where
  "hist_pause i = (True, \<lambda>v. snd (snd (drain_task hist_tokio 1 False (replicate 9 (Inr ())) v)))"

definition ref_edit_session :: "message list" where
  "ref_edit_session =
     [Notification (notification_new ''textDocument/didOpen''
        (Some (JObject [(''textDocument'', JObject [(''text'', JString ''ab''), (''uri'', JString ''file:///a''), (''version'', json_nat 1)])]))),
      Request (request_new (IntegerId 2) ''textDocument/formatting''
        (Some (JObject [(''textDocument'', JObject [(''uri'', JString ''file:///a'')])]))),
      Request (request_new (IntegerId 3) ''shutdown'' None), Notification (notification_new ''exit'' None)]"

lemma drain_never_ends: "fst (snd (drain_task tk alive False (replicate n (Inr ())) w)) = False"
  by (induction n arbitrary: w) (simp_all add: case_prod_unfold split: option.split)

lemma hist_pause_quiet: "quiet (\<lambda>(t, q, up). t @ q) (\<lambda>(t, q, up). up) (snd (hist_pause i))"
proof -
  have "drain_task hist_tokio 1 False (replicate 9 (Inr ())) v
      = (fst (drain_task hist_tokio 1 False (replicate 9 (Inr ())) v), False, snd (hist_pause i) v)" for v
    using drain_never_ends [of hist_tokio 1 9 v] by (simp add: hist_pause_def prod_eq_iff)
  from hist_rt.drain_task_sent [OF this] show ?thesis
    by (simp add: quiet_def)
qed


text \<open>
  The loop reads no message while a formatting request sleeps. Unless some other task cancels the
  token, a request that was routed before any shutdown is therefore never answered as cancelled.
\<close>

lemma log_message_tokens [simp]: "tokens (log_message api tk s typ msg w) = tokens w"
  by (auto simp: log_message_def notify_def outbound_send_def Let_def split: sum.splits prod.splits)

lemma formatting_not_cancelled_before_shutdown:
  assumes "cancellation_tokens tk known descends" and "tokens_inv tk known descends c (tokens w) hs"
    and "\<not> is_cancelled tk (conn_shutdown_token c) (tokens w)"
    and "route tk c (Request req) w = (IncomingRequest req t, c1, w1)"
    and "\<And>v. tokens (snd pause v) = tokens v"
  shows "format_document api tk pause s st uri t w1 \<noteq> Some (Inl Cancelled, w2)"
proof -
  have "child_token tk (conn_shutdown_token c) (tokens w) = (t, tokens w1)"
    using assms(4) by (auto simp: route_request_def Let_def split: prod.splits)
  moreover have "conn_shutdown_token c \<in> known (tokens w)"
    using assms(2) by (simp add: tokens_inv_def Let_def)
  ultimately have "\<not> is_cancelled tk t (tokens w1)"
    using cancellation_tokens.new_child [OF assms(1)] assms(3) by blast
  then show ?thesis
    using assms(5) by (simp add: format_document_def Let_def split: option.split)
qed



text \<open>Whether a shutdown request reaches the loop before it ends.\<close>

definition shut_down_first :: "recv_event list \<Rightarrow> bool" where
  "shut_down_first es \<longleftrightarrow> (\<exists>r\<in>set (served es). req_method r = ''shutdown'')"

lemma route_keeps_state: "route tk c m w = (r, c', w') \<Longrightarrow> conn_state c' = conn_state c"
proof (cases m)
  case (Request req)
  assume "route tk c m w = (r, c', w')"
  with Request show ?thesis
    by (auto simp: route_request_def Let_def split: prod.splits)
next
  case (Notification n)
  assume "route tk c m w = (r, c', w')"
  with Notification show ?thesis
    using route_notification_shape [of tk c n w r c' w'] by simp
next
  case (Response x)
  assume "route tk c m w = (r, c', w')"
  with Response show ?thesis
    using route_response_shape [of tk c x w r c' w']
    by (cases "response_target c w x") (auto simp: keeps_incoming_def)
qed

lemma route_result:
  "route tk c (Request req) w = (r, c', w') \<Longrightarrow> \<exists>t. r = IncomingRequest req t"
  "route tk c (Notification n) w = (r, c', w') \<Longrightarrow>
     r = IncomingNotification n \<or> r = CancelHandled \<and> notif_method n \<noteq> ''exit''"
  "route tk c (Response x) w = (r, c', w') \<Longrightarrow> r = ResponseRouted \<or> r = ResponseUnknown x"
  using route_response_shape [of tk c x w r c' w']
  by (auto simp: route_request_def route_notification_def cancel_request_method_def Let_def
      split: prod.splits if_splits option.splits)

lemma exit_code_iff:
  assumes "run_server_loop api tk pause s es st c w = (Process_exit k, st', c', w')"
  shows "k = 0 \<longleftrightarrow> conn_state c = ShuttingDown \<or> shut_down_first es"
  using assms
proof (induction es arbitrary: st c w)
  case (Cons ev es)
  show ?case
  proof (cases ev rule: recv_event_cases)
    case (Request req)
    obtain r c1 w1 where rt: "route tk c (Request req) w = (r, c1, w1)"
      by (metis prod_cases3)
    obtain t where t: "r = IncomingRequest req t"
      using route_result(1) [OF rt] by blast
    show ?thesis
    proof (cases "req_method req = shutdown_method")
      case True
      obtain y c2 w2 where h: "handle_shutdown tk c1 (req_id req) w1 = (y, c2, w2)"
        by (metis prod_cases3)
      have "run_server_loop api tk pause s es st c2 w2 = (Process_exit k, st', c', w')"
        using Cons.prems Request rt t True h by simp
      then show ?thesis
        using Cons.IH handle_shutdown_shape [OF h] Request True by (simp add: shut_down_first_def shutdown_method_def)
    next
      case False
      define c2 where "c2 = c1\<lparr>conn_queue := (conn_queue c1)
        \<lparr>incoming := snd (incoming_complete (incoming (conn_queue c1)) (req_id req))\<rparr>\<rparr>"
      have "\<exists>w2. run_server_loop api tk pause s es st c2 w2 = (Process_exit k, st', c', w')"
        using Cons.prems Request rt t False by (auto simp: c2_def split: option.splits prod.splits sum.splits)
      moreover have "conn_state c2 = conn_state c"
        using route_keeps_state [OF rt] by (simp add: c2_def)
      ultimately show ?thesis
        using Cons.IH Request False by (auto simp: shut_down_first_def shutdown_method_def)
    qed
  next
    case (Notification n)
    obtain r c1 w1 where rt: "route tk c (Notification n) w = (r, c1, w1)"
      by (metis prod_cases3)
    show ?thesis
    proof (cases "notif_method n = ''exit''")
      case True
      then show ?thesis
        using Cons.prems Notification rt route_result(2) [OF rt] route_keeps_state [OF rt]
        by (auto simp: exit_method_def handle_exit_def shut_down_first_def Let_def split: if_splits)
    next
      case False
      then have "\<exists>st1. run_server_loop api tk pause s es st1 c1 w1 = (Process_exit k, st', c', w')"
        using Cons.prems Notification rt route_result(2) [OF rt] by (auto simp: exit_method_def split: option.splits)
      then show ?thesis
        using Cons.IH route_keeps_state [OF rt] Notification False by (auto simp: shut_down_first_def)
    qed
  next
    case (Response x)
    obtain r c1 w1 where rt: "route tk c (Response x) w = (r, c1, w1)"
      by (metis prod_cases3)
    have "run_server_loop api tk pause s es st c1 w1 = (Process_exit k, st', c', w')"
      using Cons.prems Response rt route_result(3) [OF rt] by auto
    then show ?thesis
      using Cons.IH route_keeps_state [OF rt] Response by (simp add: shut_down_first_def)
  qed (use Cons in \<open>auto simp: shut_down_first_def\<close>)
qed simp



end
