(* ===== verification/Json_Text.thy ===== *)
theory Json_Text
  imports Lsp_Codec "HOL-Library.Code_Target_Nat"
begin

text \<open>
  A reference reader and writer for JSON text, on which the laws that the codec expects of
  \<open>serde_json\<close> are interpreted: what is written reads back as the same document. The writer prints
  the compact form; the reader accepts white space, all escapes and integers. Numbers with a
  fraction or an exponent are left out, and the reader does not check that strings are UTF-8.
\<close>

subsection \<open>Writing\<close>

definition quote_char :: char where
  "quote_char = CHR 0x22"

definition backslash :: char where
  "backslash = CHR 0x5C"

definition hex_digit :: "nat \<Rightarrow> char" where
  "hex_digit n = char_of (if n < 10 then n + 48 else n + 87)"

definition short_escapes :: "(char \<times> char) list" where
  "short_escapes = [(quote_char, quote_char), (backslash, backslash), (CHR 0x08, CHR ''b''), (CHR 0x0C, CHR ''f''),
     (CHR 0x0A, CHR ''n''), (CHR 0x0D, CHR ''r''), (CHR 0x09, CHR ''t'')]"

definition write_char :: "char \<Rightarrow> bytes" where
  "write_char c =
     (case map_of short_escapes c of
        Some e \<Rightarrow> [backslash, e]
      | None \<Rightarrow>
          if byte_val c < 32 then
            [backslash, CHR ''u'', CHR ''0'', CHR ''0'', hex_digit (byte_val c div 16), hex_digit (byte_val c mod 16)]
          else [c])"

definition write_string :: "string \<Rightarrow> bytes" where
  "write_string s = quote_char # concat (map write_char s) @ [quote_char]"

fun write_number :: "number \<Rightarrow> bytes" where
  "write_number (PosInt u) = show_nat (unat u)"
| "write_number (NegInt u) = CHR ''-'' # show_nat (nat (- sint u))"
| "write_number (Float u) = []"

fun comma_separated :: "bytes list \<Rightarrow> bytes" where
  "comma_separated [] = []"
| "comma_separated [b] = b"
| "comma_separated (b # bs) = b @ CHR '','' # comma_separated bs"

primrec json_text :: "json \<Rightarrow> bytes" where
  "json_text JNull = ''null''"
| "json_text (JBool b) = (if b then ''true'' else ''false'')"
| "json_text (JNumber n) = write_number n"
| "json_text (JString s) = write_string s"
| "json_text (JArray vs) = CHR ''['' # comma_separated (map json_text vs) @ '']''"
| "json_text (JObject es) =
     CHR ''{'' # comma_separated (map (\<lambda>e. write_string (fst e) @ CHR '':'' # snd e) (map (map_prod id json_text) es)) @ ''}''"

text \<open>The documents the writer prints: no floating point numbers, negative numbers are negative.\<close>

fun plain_number :: "number \<Rightarrow> bool" where
  "plain_number (PosInt u) = True"
| "plain_number (NegInt u) = (sint u < 0)"
| "plain_number (Float u) = False"

primrec plain_json :: "json \<Rightarrow> bool" where
  "plain_json JNull = True"
| "plain_json (JBool b) = True"
| "plain_json (JNumber n) = plain_number n"
| "plain_json (JString s) = True"
| "plain_json (JArray vs) = list_all id (map plain_json vs)"
| "plain_json (JObject es) = list_all (\<lambda>e. snd e) (map (map_prod id plain_json) es)"

definition json_write :: "json \<Rightarrow> serde_error + bytes" where
  "json_write d = (if plain_json d then Inr (json_text d) else Inl (Custom ''number''))"

subsection \<open>Reading\<close>

fun skip_ws :: "bytes \<Rightarrow> bytes" where
  "skip_ws [] = []"
| "skip_ws (c # r) = (if c \<in> set [CHR 0x20, CHR 0x09, CHR 0x0A, CHR 0x0D] then skip_ws r else c # r)"

definition is_digit :: "char \<Rightarrow> bool" where
  "is_digit c = (48 \<le> byte_val c \<and> byte_val c \<le> 57)"

definition hex_value :: "char \<Rightarrow> nat option" where
  "hex_value c =
     (let n = byte_val c
      in if 48 \<le> n \<and> n \<le> 57 then Some (n - 48)
         else if 97 \<le> n \<and> n \<le> 102 then Some (n - 87)
         else if 65 \<le> n \<and> n \<le> 70 then Some (n - 55)
         else None)"

definition hex4 :: "char \<Rightarrow> char \<Rightarrow> char \<Rightarrow> char \<Rightarrow> nat option" where
  "hex4 a b c d =
     (case (hex_value a, hex_value b, hex_value c, hex_value d) of
        (Some w, Some x, Some y, Some z) \<Rightarrow> Some (((w * 16 + x) * 16 + y) * 16 + z)
      | _ \<Rightarrow> None)"

definition utf8_encode :: "nat \<Rightarrow> bytes" where
  "utf8_encode n =
     (if n < 0x80 then [char_of n]
      else if n < 0x800 then [char_of (0xC0 + n div 64), char_of (0x80 + n mod 64)]
      else if n < 0x10000 then [char_of (0xE0 + n div 4096), char_of (0x80 + n div 64 mod 64), char_of (0x80 + n mod 64)]
      else [char_of (0xF0 + n div 262144), char_of (0x80 + n div 4096 mod 64), char_of (0x80 + n div 64 mod 64),
            char_of (0x80 + n mod 64)])"

text \<open>The code of \<open>\u\<close> with four digits, and with a second one for a surrogate pair; the rest follows.\<close>

definition read_unicode :: "bytes \<Rightarrow> (bytes \<times> bytes) option" where
  "read_unicode s =
     (case s of
        a # b # c # d # r \<Rightarrow>
          (case hex4 a b c d of
             None \<Rightarrow> None
           | Some n \<Rightarrow>
               if n < 0xD800 \<or> 0xDFFF < n then Some (utf8_encode n, r)
               else if 0xDBFF < n then None
               else
                 (case r of
                    x # y # e # f # g # h # r' \<Rightarrow>
                      if x = backslash \<and> y = CHR ''u'' then
                        (case hex4 e f g h of
                           None \<Rightarrow> None
                         | Some m \<Rightarrow>
                             if 0xDC00 \<le> m \<and> m \<le> 0xDFFF
                             then Some (utf8_encode (0x10000 + (n - 0xD800) * 0x400 + (m - 0xDC00)), r')
                             else None)
                      else None
                  | _ \<Rightarrow> None))
      | _ \<Rightarrow> None)"

lemma read_unicode_shorter: "read_unicode s = Some (bs, r) \<Longrightarrow> length r < length s"
  by (auto simp: read_unicode_def split: list.splits option.splits if_splits)

definition read_escape :: "bytes \<Rightarrow> (bytes \<times> bytes) option" where
  "read_escape s =
     (case s of
        [] \<Rightarrow> None
      | e # r \<Rightarrow>
          if e = CHR ''u'' then read_unicode r
          else if e = CHR ''/'' then Some ([e], r)
          else map_option (\<lambda>c. ([c], r)) (map_of (map prod.swap short_escapes) e))"

lemma read_escape_shorter: "read_escape s = Some (bs, r) \<Longrightarrow> length r < length s"
  by (auto simp: read_escape_def dest: read_unicode_shorter split: list.splits if_splits)

text \<open>The contents of a string after the opening quote, and what follows the closing one.\<close>

function read_string :: "bytes \<Rightarrow> (string \<times> bytes) option" where
  "read_string s =
     (case s of
        [] \<Rightarrow> None
      | c # r \<Rightarrow>
          if c = quote_char then Some ([], r)
          else if c = backslash then
            (case read_escape r of
               None \<Rightarrow> None
             | Some (bs, r') \<Rightarrow> map_option (\<lambda>(t, u). (bs @ t, u)) (read_string r'))
          else if byte_val c < 32 then None
          else map_option (\<lambda>(t, u). (c # t, u)) (read_string r))"
  by pat_completeness auto
termination
  by (relation "measure length") (auto dest: read_escape_shorter)

declare read_string.simps [simp del]

fun digits_value :: "nat \<Rightarrow> bytes \<Rightarrow> nat" where
  "digits_value acc [] = acc"
| "digits_value acc (c # cs) = digits_value (acc * 10 + (byte_val c - 48)) cs"

definition read_integer :: "bytes \<Rightarrow> (nat \<times> bytes) option" where
  "read_integer s =
     (let ds = takeWhile is_digit s; r = dropWhile is_digit s
      in if ds = [] \<or> (hd ds = CHR ''0'' \<and> tl ds \<noteq> []) \<or> (r \<noteq> [] \<and> hd r \<in> set [CHR ''.'', CHR ''e'', CHR ''E''])
         then None else Some (digits_value 0 ds, r))"

definition read_number :: "bytes \<Rightarrow> (json \<times> bytes) option" where
  "read_number s =
     (case s of
        [] \<Rightarrow> None
      | c # r \<Rightarrow>
          if c = CHR ''-'' then
            (case read_integer r of
               Some (n, r') \<Rightarrow> if 0 < n \<and> n \<le> 2 ^ 63 then Some (JNumber (NegInt (word_of_int (- int n))), r') else None
             | None \<Rightarrow> None)
          else
            (case read_integer s of
               Some (n, r') \<Rightarrow> if n < 2 ^ 64 then Some (JNumber (PosInt (of_nat n)), r') else None
             | None \<Rightarrow> None))"

definition read_literal :: "bytes \<Rightarrow> json \<Rightarrow> bytes \<Rightarrow> (json \<times> bytes) option" where
  "read_literal t v s = (if take (length t) s = t then Some (v, drop (length t) s) else None)"

text \<open>
  The recursive descent. The first argument bounds the nesting and the number of elements; the
  number of bytes to be read is always enough.
\<close>

fun read_value :: "nat \<Rightarrow> bytes \<Rightarrow> (json \<times> bytes) option"
  and read_elements :: "nat \<Rightarrow> bytes \<Rightarrow> (json list \<times> bytes) option"
  and read_members :: "nat \<Rightarrow> bytes \<Rightarrow> ((string \<times> json) list \<times> bytes) option" where
  "read_value 0 s = None"
| "read_value (Suc n) s =
     (case skip_ws s of
        [] \<Rightarrow> None
      | c # r \<Rightarrow>
          if c = CHR ''n'' then read_literal ''ull'' JNull r
          else if c = CHR ''t'' then read_literal ''rue'' (JBool True) r
          else if c = CHR ''f'' then read_literal ''alse'' (JBool False) r
          else if c = quote_char then map_option (map_prod JString id) (read_string r)
          else if c = CHR ''['' then
            (case skip_ws r of
               [] \<Rightarrow> None
             | d # r' \<Rightarrow> if d = CHR '']'' then Some (JArray [], r') else map_option (map_prod JArray id) (read_elements n r))
          else if c = CHR ''{'' then
            (case skip_ws r of
               [] \<Rightarrow> None
             | d # r' \<Rightarrow> if d = CHR ''}'' then Some (JObject [], r') else map_option (map_prod JObject id) (read_members n r))
          else read_number (c # r))"
| "read_elements 0 s = None"
| "read_elements (Suc n) s =
     (case read_value n s of
        None \<Rightarrow> None
      | Some (v, r) \<Rightarrow>
          (case skip_ws r of
             [] \<Rightarrow> None
           | c # r' \<Rightarrow>
               if c = CHR '','' then map_option (map_prod (Cons v) id) (read_elements n r')
               else if c = CHR '']'' then Some ([v], r')
               else None))"
| "read_members 0 s = None"
| "read_members (Suc n) s =
     (case skip_ws s of
        [] \<Rightarrow> None
      | q # r \<Rightarrow>
          if q \<noteq> quote_char then None
          else
            (case read_string r of
               None \<Rightarrow> None
             | Some (k, r1) \<Rightarrow>
                 (case skip_ws r1 of
                    [] \<Rightarrow> None
                  | d # r2 \<Rightarrow>
                      if d \<noteq> CHR '':'' then None
                      else
                        (case read_value n r2 of
                           None \<Rightarrow> None
                         | Some (v, r3) \<Rightarrow>
                             (case skip_ws r3 of
                                [] \<Rightarrow> None
                              | c # r' \<Rightarrow>
                                  if c = CHR '','' then map_option (map_prod (Cons (k, v)) id) (read_members n r')
                                  else if c = CHR ''}'' then Some ([(k, v)], r')
                                  else None)))))"

definition json_read :: "bytes \<Rightarrow> serde_error + json" where
  "json_read s =
     (case read_value (length s) s of
        None \<Rightarrow> Inl (Syntax ''expected value'')
      | Some (d, r) \<Rightarrow> if skip_ws r = [] then Inr d else Inl (Syntax ''trailing characters''))"


subsection \<open>What is written reads back\<close>

lemma skip_ws_id: "c \<notin> set [CHR 0x20, CHR 0x09, CHR 0x0A, CHR 0x0D] \<Longrightarrow> skip_ws (c # r) = c # r"
  by simp

declare skip_ws.simps(2) [simp del]

lemma hex_value_digit: "n < 16 \<Longrightarrow> hex_value (hex_digit n) = Some n"
  by (simp add: hex_value_def hex_digit_def Let_def)

lemma short_escape_read:
  assumes "map_of short_escapes c = Some e"
  shows "read_escape (e # r) = Some ([c], r)"
  using assms by (auto simp: short_escapes_def read_escape_def quote_char_def backslash_def split: if_splits)

lemma control_escape_read:
  assumes "byte_val c < 32"
  shows "read_escape (CHR ''u'' # CHR ''0'' # CHR ''0'' # hex_digit (byte_val c div 16) # hex_digit (byte_val c mod 16) # r)
    = Some ([c], r)"
proof -
  have "hex_value (hex_digit (byte_val c div 16)) = Some (byte_val c div 16)"
    "hex_value (hex_digit (byte_val c mod 16)) = Some (byte_val c mod 16)"
    using assms by (intro hex_value_digit; simp)+
  moreover have "hex_value (CHR ''0'') = Some 0"
    by (simp add: hex_value_def)
  ultimately have "hex4 (CHR ''0'') (CHR ''0'') (hex_digit (byte_val c div 16)) (hex_digit (byte_val c mod 16)) = Some (byte_val c)"
    by (simp add: hex4_def)
  then show ?thesis
    using assms by (simp add: read_escape_def read_unicode_def utf8_encode_def)
qed

lemma read_string_char:
  "read_string (write_char c @ t) = map_option (\<lambda>(s, u). (c # s, u)) (read_string t)"
proof (cases "map_of short_escapes c")
  case (Some e)
  have "read_string (backslash # e # t) = map_option (\<lambda>(s, u). (c # s, u)) (read_string t)"
    by (subst read_string.simps) (simp add: short_escape_read [OF Some] backslash_def quote_char_def)
  with Some show ?thesis
    by (simp add: write_char_def)
next
  case None
  then have plain: "c \<noteq> quote_char" "c \<noteq> backslash"
    by (auto simp: short_escapes_def split: if_splits)
  show ?thesis
  proof (cases "byte_val c < 32")
    case True
    have "read_string (write_char c @ t) = map_option (\<lambda>(s, u). (c # s, u)) (read_string t)"
      using None True by (subst read_string.simps)
        (simp add: write_char_def control_escape_read [OF True] backslash_def quote_char_def)
    then show ?thesis .
  next
    case False
    then show ?thesis
      using None plain by (subst read_string.simps) (simp add: write_char_def)
  qed
qed

lemma read_string_write: "read_string (concat (map write_char s) @ quote_char # r) = Some (s, r)"
proof (induction s)
  case Nil
  show ?case
    by (subst read_string.simps) simp
next
  case (Cons c s)
  then show ?case
    by (simp add: read_string_char)
qed

text \<open>What may follow a number.\<close>

definition ends_number :: "bytes \<Rightarrow> bool" where
  "ends_number r \<longleftrightarrow> r = [] \<or> \<not> is_digit (hd r) \<and> hd r \<notin> set [CHR ''.'', CHR ''e'', CHR ''E'']"

lemma digits_value_append: "digits_value a (xs @ ys) = digits_value (digits_value a xs) ys"
  by (induction a xs rule: digits_value.induct) simp_all

lemma digits_value_show: "digits_value 0 (show_nat n) = n"
proof (induction n rule: show_nat.induct)
  case (1 n)
  show ?case
  proof (cases "n < 10")
    case True
    then show ?thesis
      by (subst show_nat.simps) (simp add: byte_val_digit_char)
  next
    case False
    have "digits_value 0 (show_nat n) = digits_value 0 (show_nat (n div 10)) * 10 + n mod 10"
      using False by (subst show_nat.simps) (simp add: digits_value_append byte_val_digit_char)
    also have "\<dots> = n"
      using 1 False by simp
    finally show ?thesis .
  qed
qed

lemma show_nat_no_leading_zero: "0 < n \<Longrightarrow> hd (show_nat n) \<noteq> CHR ''0''"
proof (induction n rule: show_nat.induct)
  case (1 n)
  show ?case
  proof (cases "n < 10")
    case True
    have "byte_val (digit_char n) \<noteq> byte_val (CHR ''0'')"
      using True 1 by (simp add: byte_val_digit_char)
    then show ?thesis
      using True by (subst show_nat.simps) auto
  next
    case False
    then have "hd (show_nat n) = hd (show_nat (n div 10))"
      by (subst show_nat.simps) simp
    with 1 False show ?thesis
      by simp
  qed
qed

lemma read_integer_show:
  assumes "ends_number r"
  shows "read_integer (show_nat n @ r) = Some (n, r)"
proof -
  have digits: "\<forall>c\<in>set (show_nat n). is_digit c"
    using show_nat_digits by (auto simp: is_digit_def)
  have "takeWhile is_digit r = []" "dropWhile is_digit r = r"
    using assms by (cases r; simp add: ends_number_def)+
  then have split: "takeWhile is_digit (show_nat n @ r) = show_nat n" "dropWhile is_digit (show_nat n @ r) = r"
    using digits by simp_all
  have "hd (show_nat n) \<noteq> CHR ''0'' \<or> tl (show_nat n) = []"
  proof (cases "n = 0")
    case True
    then show ?thesis
      by (subst (2) show_nat.simps) simp
  next
    case False
    then show ?thesis
      using show_nat_no_leading_zero [of n] by simp
  qed
  then show ?thesis
    using assms unfolding read_integer_def Let_def split digits_value_show ends_number_def by auto
qed

lemma show_nat_hd: "is_digit (hd (show_nat n))"
  using show_nat_digits [of "hd (show_nat n)" n] by (simp add: is_digit_def)

lemma read_number_write:
  assumes "plain_number n" and "ends_number r"
  shows "read_number (write_number n @ r) = Some (JNumber n, r)"
proof (cases n)
  case (PosInt u)
  obtain c cs where s: "show_nat (unat u) = c # cs"
    by (cases "show_nat (unat u)") auto
  then have "c \<noteq> CHR ''-''"
    using show_nat_hd [of "unat u"] by (auto simp: is_digit_def)
  moreover have "read_integer (c # cs @ r) = Some (unat u, r)"
    using read_integer_show [OF assms(2), of "unat u"] s by simp
  moreover have "unat u < 2 ^ 64"
    using unsigned_less [of u] by simp
  ultimately show ?thesis
    using PosInt s by (simp add: read_number_def)
next
  case (NegInt u)
  have "- (2 ^ 63) \<le> sint u"
    using sint_range_size [of u] by (simp add: word_size)
  then have "0 < nat (- sint u)" "nat (- sint u) \<le> 2 ^ 63" "word_of_int (- int (nat (- sint u))) = u"
    using assms(1) NegInt by simp_all
  then show ?thesis
    using NegInt read_integer_show [OF assms(2), of "nat (- sint u)"] by (simp add: read_number_def)
qed (use assms in simp)


definition reads_back :: "json \<Rightarrow> bool" where
  "reads_back d \<longleftrightarrow> (\<forall>n r. length (json_text d) \<le> n \<longrightarrow> ends_number r \<longrightarrow> read_value n (json_text d @ r) = Some (d, r))"

lemma reads_backD:
  "reads_back d \<Longrightarrow> length (json_text d) \<le> n \<Longrightarrow> ends_number r \<Longrightarrow> read_value n (json_text d @ r) = Some (d, r)"
  by (simp add: reads_back_def)

lemma comma_separated_Cons: "bs \<noteq> [] \<Longrightarrow> comma_separated (b # bs) = b @ CHR '','' # comma_separated bs"
  by (cases bs) simp_all

lemma ends_number_punctuation [simp]:
  "ends_number (CHR '','' # r)" "ends_number (CHR '']'' # r)" "ends_number (CHR ''}'' # r)"
  by (simp_all add: ends_number_def is_digit_def)

lemma skip_ws_punctuation [simp]:
  "skip_ws (CHR '','' # r) = CHR '','' # r" "skip_ws (CHR '']'' # r) = CHR '']'' # r"
  "skip_ws (CHR ''}'' # r) = CHR ''}'' # r" "skip_ws (CHR '':'' # r) = CHR '':'' # r"
  "skip_ws (CHR ''['' # r) = CHR ''['' # r" "skip_ws (CHR ''{'' # r) = CHR ''{'' # r"
  "skip_ws (quote_char # r) = quote_char # r"
  by (simp_all add: skip_ws_id quote_char_def)

lemma read_elements_write:
  assumes "vs \<noteq> []" and "\<forall>v\<in>set vs. reads_back v"
    and "length (comma_separated (map json_text vs)) < n"
  shows "read_elements n (comma_separated (map json_text vs) @ CHR '']'' # r) = Some (vs, r)"
  using assms
proof (induction vs arbitrary: n)
  case (Cons v vs)
  obtain m where n: "n = Suc m"
    using Cons.prems(3) by (cases n) auto
  show ?case
  proof (cases "vs = []")
    case True
    then show ?thesis
      using Cons.prems n by (simp add: reads_backD)
  next
    case False
    then have joined: "comma_separated (map json_text (v # vs)) = json_text v @ CHR '','' # comma_separated (map json_text vs)"
      by (simp add: comma_separated_Cons)
    then have "read_elements m (comma_separated (map json_text vs) @ CHR '']'' # r) = Some (vs, r)"
      using Cons.prems Cons.IH [OF False] n by simp
    then show ?thesis
      using Cons.prems n joined by (simp add: reads_backD)
  qed
qed simp

lemma read_members_write:
  assumes "es \<noteq> []" and "\<forall>e\<in>set es. reads_back (snd e)"
    and "length (comma_separated (map (\<lambda>e. write_string (fst e) @ CHR '':'' # json_text (snd e)) es)) < n"
  shows "read_members n (comma_separated (map (\<lambda>e. write_string (fst e) @ CHR '':'' # json_text (snd e)) es) @ CHR ''}'' # r)
    = Some (es, r)"
  using assms
proof (induction es arbitrary: n)
  case (Cons e es)
  let ?text = "\<lambda>es. comma_separated (map (\<lambda>e. write_string (fst e) @ CHR '':'' # json_text (snd e)) es)"
  obtain m where n: "n = Suc m"
    using Cons.prems(3) by (cases n) auto
  have name: "read_string (concat (map write_char (fst e)) @ quote_char # t) = Some (fst e, t)" for t
    by (rule read_string_write)
  show ?case
  proof (cases "es = []")
    case True
    then show ?thesis
      using Cons.prems n name by (simp add: reads_backD write_string_def)
  next
    case False
    then have joined: "?text (e # es) = write_string (fst e) @ CHR '':'' # json_text (snd e) @ CHR '','' # ?text es"
      by (simp add: comma_separated_Cons)
    then have "read_members m (?text es @ CHR ''}'' # r) = Some (es, r)"
      using Cons.prems Cons.IH [OF False] n by simp
    then show ?thesis
      using Cons.prems n joined name by (simp add: reads_backD write_string_def)
  qed
qed simp

lemma write_number_hd: "plain_number n \<Longrightarrow> write_number n \<noteq> [] \<and> (is_digit (hd (write_number n)) \<or> hd (write_number n) = CHR ''-'')"
  by (cases n) (simp_all add: show_nat_hd)

lemma number_start:
  "is_digit c \<or> c = CHR ''-'' \<Longrightarrow> c \<notin> set [CHR 0x20, CHR 0x09, CHR 0x0A, CHR 0x0D, CHR '']'', CHR ''}'', CHR ''['', CHR ''{'', quote_char,
     CHR ''n'', CHR ''t'', CHR ''f'']"
  by (auto simp: is_digit_def quote_char_def)

lemma json_text_hd:
  assumes "plain_json d"
  shows "json_text d \<noteq> []" and "hd (json_text d) \<notin> set [CHR 0x20, CHR 0x09, CHR 0x0A, CHR 0x0D, CHR '']'', CHR ''}'']"
proof -
  have "json_text d \<noteq> [] \<and> hd (json_text d) \<notin> set [CHR 0x20, CHR 0x09, CHR 0x0A, CHR 0x0D, CHR '']'', CHR ''}'']"
  proof (cases d)
    case (JNumber n)
    then show ?thesis
      using assms write_number_hd [of n] number_start [of "hd (write_number n)"] by simp
  qed (simp_all add: write_string_def quote_char_def)
  then show "json_text d \<noteq> []" "hd (json_text d) \<notin> set [CHR 0x20, CHR 0x09, CHR 0x0A, CHR 0x0D, CHR '']'', CHR ''}'']"
    by blast+
qed

lemma number_reads_back:
  assumes "plain_number n"
  shows "reads_back (JNumber n)"
  unfolding reads_back_def
proof (intro allI impI)
  fix k r assume k: "length (json_text (JNumber n)) \<le> k" and r: "ends_number r"
  obtain c cs where s: "write_number n = c # cs"
    using json_text_hd(1) [of "JNumber n"] assms by (cases "write_number n") simp_all
  have c: "c \<notin> set [CHR 0x20, CHR 0x09, CHR 0x0A, CHR 0x0D, CHR '']'', CHR ''}'', CHR ''['', CHR ''{'', quote_char,
     CHR ''n'', CHR ''t'', CHR ''f'']"
    using write_number_hd [OF assms] s by (intro number_start) simp
  then have "skip_ws (c # cs @ r) = c # cs @ r"
    by (simp add: skip_ws_id)
  with c show "read_value k (json_text (JNumber n) @ r) = Some (JNumber n, r)"
    using k s read_number_write [OF assms r] by (cases k) simp_all
qed


lemma quote_char_distinct [simp]:
  "quote_char \<noteq> CHR ''n''" "quote_char \<noteq> CHR ''t''" "quote_char \<noteq> CHR ''f''" "quote_char \<noteq> CHR ''[''"
  "quote_char \<noteq> CHR ''{''" "quote_char \<noteq> CHR ''}''"
  "CHR ''['' \<noteq> quote_char" "CHR ''{'' \<noteq> quote_char"
  by (simp_all add: quote_char_def)

lemma array_reads_back:
  assumes "\<forall>v\<in>set vs. plain_json v \<and> reads_back v"
  shows "reads_back (JArray vs)"
  unfolding reads_back_def
proof (intro allI impI)
  fix k r assume k: "length (json_text (JArray vs)) \<le> k" and r: "ends_number r"
  obtain m where m: "k = Suc m"
    using k by (cases k) auto
  show "read_value k (json_text (JArray vs) @ r) = Some (JArray vs, r)"
  proof (cases vs)
    case Nil
    then show ?thesis
      using m by simp
  next
    case (Cons v vs')
    let ?body = "comma_separated (map json_text vs)"
    have elements: "read_elements m (?body @ CHR '']'' # r) = Some (vs, r)"
      using k m assms Cons by (intro read_elements_write) auto
    obtain c cs where c: "?body = c # cs" "c \<notin> set [CHR 0x20, CHR 0x09, CHR 0x0A, CHR 0x0D, CHR '']'', CHR ''}'']"
      using json_text_hd [of v] assms Cons by (cases "json_text v"; cases vs') auto
    then have "skip_ws (?body @ CHR '']'' # r) = ?body @ CHR '']'' # r"
      by (simp add: skip_ws_id)
    then show ?thesis
      using m elements c by simp
  qed
qed

lemma object_reads_back:
  assumes "\<forall>e\<in>set es. reads_back (snd e)"
  shows "reads_back (JObject es)"
  unfolding reads_back_def
proof (intro allI impI)
  let ?member = "\<lambda>e. write_string (fst e) @ CHR '':'' # json_text (snd e)"
  have joined: "json_text (JObject es) = CHR ''{'' # comma_separated (map ?member es) @ ''}''"
    by (simp add: comp_def)
  fix k r assume k: "length (json_text (JObject es)) \<le> k" and r: "ends_number r"
  obtain m where m: "k = Suc m"
    using k by (cases k) auto
  show "read_value k (json_text (JObject es) @ r) = Some (JObject es, r)"
  proof (cases es)
    case Nil
    then show ?thesis
      using m by simp
  next
    case (Cons e es')
    let ?body = "comma_separated (map ?member es)"
    have members: "read_members m (?body @ CHR ''}'' # r) = Some (es, r)"
      using k m assms Cons joined by (intro read_members_write) auto
    obtain cs where c: "?body = quote_char # cs"
      using Cons by (cases es') (auto simp: write_string_def)
    then show ?thesis
      using m members unfolding joined by simp
  qed
qed

lemma plain_reads_back: "plain_json d \<Longrightarrow> reads_back d"
proof (induction d)
  case (JNumber n)
  then show ?case
    by (simp add: number_reads_back)
next
  case (JArray vs)
  then show ?case
    by (intro array_reads_back) (auto simp: list_all_iff)
next
  case (JObject es)
  then show ?case
    by (intro object_reads_back) (fastforce simp: list_all_iff prod_set_simps)
next
  case (JString s)
  show ?case
    unfolding reads_back_def
  proof (intro allI impI)
    fix n r assume "length (json_text (JString s)) \<le> n"
    then obtain m where "n = Suc m"
      by (cases n) (auto simp: write_string_def)
    then show "read_value n (json_text (JString s) @ r) = Some (JString s, r)"
      using read_string_write [of s r] by (simp add: write_string_def)
  qed
qed (auto simp: reads_back_def read_literal_def skip_ws_id gr0_conv_Suc Suc_le_eq quote_char_def
      elim!: less_natE split: if_splits)

text \<open>
  What the codec relies on: the text of a document reads back as the document. \<open>good\<close> are the
  documents that have a text.
\<close>

locale json_text_functions =
  fixes parse :: "bytes \<Rightarrow> serde_error + json"
    and print :: "json \<Rightarrow> serde_error + bytes"
    and good :: "json \<Rightarrow> bool"
  assumes print_good: "good d \<Longrightarrow> \<exists>b. print d = Inr b"
    and parse_print: "print d = Inr b \<Longrightarrow> parse b = Inr d"
begin

lemma message_text_faithful:
  assumes "good (message_serialize m)" and "\<And>b. print (message_serialize m) = Inr b \<Longrightarrow> length b \<le> usize_max"
  shows "json_text_faithful parse print m"
  using print_good [OF assms(1)] assms(2) parse_print by (auto simp: json_text_faithful_def)

end

lemma json_read_text:
  assumes "plain_json d"
  shows "json_read (json_text d) = Inr d"
  using reads_backD [OF plain_reads_back [OF assms] order.refl, of "[]"]
  by (simp add: json_read_def ends_number_def)

interpretation json_ref: json_text_functions json_read json_write plain_json
  by unfold_locales (auto simp: json_write_def json_read_text split: if_splits)

end
