(* ===== verification/Server_Session.thy ===== *)
theory Server_Session
  imports Formatter_Server Json_Text
begin

text \<open>
  A whole session of the example server (\<open>src/examples/formatter_server.rs\<close>, \<open>main\<close>): the bytes that a
  client writes are decoded, the handshake and the message loop run, the drain task writes the
  queue, and the client decodes what it reads.
\<close>

subsection \<open>The answers of the handshake\<close>

fun requests_in :: "recv_event list \<Rightarrow> request list" where
  "requests_in [] = []"
| "requests_in (Next (Some (Inr (Request r))) # es) = r # requests_in es"
| "requests_in (_ # es) = requests_in es"

abbreviation ids_of :: "request list \<Rightarrow> request_id option list" where
  "ids_of rs \<equiv> map (\<lambda>r. Some (req_id r)) rs"

lemma requests_in_append [simp]: "requests_in (xs @ ys) = requests_in xs @ requests_in ys"
  by (induction xs rule: requests_in.induct) simp_all

lemma refusals_ids:
  assumes "\<forall>e\<in>set es. outcome e = None"
  shows "response_ids (concat (map (refusals outcome) es)) = ids_of (requests_in es)
    \<and> (\<forall>m\<in>set (concat (map (refusals outcome) es)). message_wf m)"
  using assms
proof (induction es)
  case (Cons e es)
  then show ?case
    by (cases e rule: recv_event_cases)
      (auto simp: refusals_def not_initialized_response_def error_response_simps)
qed simp

lemma dropWhile_split:
  assumes "dropWhile P xs = y # ys"
  shows "xs = takeWhile P xs @ y # ys" and "\<forall>x\<in>set (takeWhile P xs). P x" and "\<not> P y"
  using assms takeWhile_dropWhile_id [of P xs] dropWhile_eq_Cons_conv [of P xs y ys]
  by (auto dest: set_takeWhileD)

context outbound_sends
begin

lemma start_answers:
  assumes "live (outbound w)" and "initialize_start tk c w = (Ready (Inr (i, p)), c', w')"
  shows "\<exists>pre r. receiver c = pre @ Next (Some (Inr (Request r))) # receiver c' \<and> req_id r = i
    \<and> answers api w w' (ids_of (requests_in pre))"
proof -
  let ?none = "\<lambda>e. start_outcome e = None"
  note st = initialize_start_live [OF assms]
  obtain e rest where e: "dropWhile ?none (receiver c) = e # rest"
    using st by (cases "dropWhile ?none (receiver c)") simp_all
  then have out: "start_outcome e = Some (Inr (i, p))" "receiver c' = rest"
    using st dropWhile_split(3) [OF e] by auto
  from out(1) obtain r where "e = Next (Some (Inr (Request r)))" "req_id r = i"
    by (cases e rule: recv_event_cases) (auto simp: stream_outcome_def split: if_splits)
  then show ?thesis
    using dropWhile_split(1,2) [OF e] out(2) st refusals_ids [of "takeWhile ?none (receiver c)" start_outcome]
    by (intro exI [of _ "takeWhile ?none (receiver c)"] exI [of _ r]) (auto simp: answers_def)
qed

lemma finish_answers:
  assumes "live (outbound w)" and "initialize_finish tk c i v w = (Ready (Inr x), c', w')"
    and "api_values_ok api \<Longrightarrow> is_value v"
  shows "\<exists>mid n. receiver c = mid @ Next (Some (Inr (Notification n))) # receiver c' \<and> notif_method n = ''initialized''
    \<and> conn_state c' = Running \<and> answers api w w' (Some i # ids_of (requests_in mid))"
proof -
  let ?none = "\<lambda>e. finish_outcome e = None"
  note fin = initialize_finish_live [OF assms(1,2)]
  obtain e rest where e: "dropWhile ?none (receiver c) = e # rest"
    using fin by (cases "dropWhile ?none (receiver c)") simp_all
  then have out: "finish_outcome e = Some (Inr x)" "receiver c' = rest"
    using fin dropWhile_split(3) [OF e] by auto
  then have c': "conn_state c' = Running"
    using fin e by (simp add: on_success_def)
  from out(1) obtain n where "e = Next (Some (Inr (Notification n)))" "notif_method n = ''initialized''"
    by (cases e rule: recv_event_cases) (auto simp: stream_outcome_def split: if_splits)
  then show ?thesis
    using dropWhile_split(1,2) [OF e] out(2) c' fin refusals_ids [of "takeWhile ?none (receiver c)" finish_outcome] assms(3)
    by (intro exI [of _ "takeWhile ?none (receiver c)"] exI [of _ n]) (auto simp: answers_def response_ok_def)
qed

text \<open>The handshake answers the \<open>initialize\<close> request and refuses every other, in order.\<close>

lemma initialize_answers:
  assumes "live (outbound w)" and "initialize tk c caps w = (Ready (Inr p), c', w')" and "api_values_ok api \<Longrightarrow> is_value caps"
  shows "\<exists>pre n. receiver c = pre @ Next (Some (Inr (Notification n))) # receiver c' \<and> notif_method n = ''initialized''
    \<and> conn_state c' = Running \<and> answers api w w' (ids_of (requests_in pre))"
proof -
  obtain i c1 w1 where s: "initialize_start tk c w = (Ready (Inr (i, p)), c1, w1)"
    "\<exists>x. initialize_finish tk c1 i (JObject [(''capabilities'', caps)]) w1 = (Ready (Inr x), c', w')"
    using assms(2) by (auto simp: initialize_def split: prod.splits poll.splits sum.splits)
  obtain pre r where pre: "receiver c = pre @ Next (Some (Inr (Request r))) # receiver c1" "req_id r = i"
    "answers api w w1 (ids_of (requests_in pre))"
    using start_answers [OF assms(1) s(1)] by blast
  then have "live (outbound w1)"
    by (simp add: answers_def)
  then obtain mid n where mid: "receiver c1 = mid @ Next (Some (Inr (Notification n))) # receiver c'"
    "notif_method n = ''initialized''" "conn_state c' = Running"
    "answers api w1 w' (Some i # ids_of (requests_in mid))"
    using finish_answers [of w1 c1 i "JObject [(''capabilities'', caps)]" _ c' w' api] s(2) assms(3) by auto
  let ?pre = "pre @ Next (Some (Inr (Request r))) # mid"
  have "answers api w w' (ids_of (requests_in ?pre))"
    using answers_trans [OF pre(3) mid(4)] pre(2) by simp
  then show ?thesis
    using pre(1) mid(1-3) by (intro exI [of _ ?pre] exI [of _ n]) simp
qed

text \<open>
  \<open>main\<close>: when the handshake completes, every request of the session is answered once, in order, up
  to the end of the loop.
\<close>

lemma server_main_answers:
  assumes "live (outbound w)" and "api_texts_ok api" and "\<And>i. quiet queued live (snd (pause i))"
    and "server_main api tk pause c w = Some (e, st, c', w')"
  shows "\<exists>pre n rest. receiver c = pre @ Next (Some (Inr (Notification n))) # rest \<and> notif_method n = ''initialized''
    \<and> e \<noteq> Panicked \<and> answers api w w' (ids_of (requests_in pre @ served rest))"
proof -
  obtain caps p c1 w1 where i: "capabilities_value api server_capabilities = Inr caps" "initialize tk c caps w = (Ready (Inr p), c1, w1)"
    using assms(4) by (auto simp: server_main_def split: sum.splits prod.splits poll.splits)
  obtain s c2 w2 where s: "conn_client_sender c1 w1 = (s, c2, w2)"
    by (metis prod_cases3)
  define w3 where "w3 = (case parse_client_info api p of
      Some info \<Rightarrow> log_message api tk s INFO (''Client initialized: '' @ info) w2 | None \<Rightarrow> w2)"
  have run: "run_server api tk pause c2 s w3 = (e, st, c', w')"
    using assms(4) i s by (auto simp: server_main_def w3_def)
  obtain pre n where pre: "receiver c = pre @ Next (Some (Inr (Notification n))) # receiver c1"
    "notif_method n = ''initialized''" "answers api w w1 (ids_of (requests_in pre))"
    using initialize_answers [OF assms(1) i(2), of api] i(1) by (auto simp: api_values_ok_def)
  have "outbound w2 = outbound w1" "receiver c2 = receiver c1"
    using s client_sender_shape [OF s] by (auto simp: conn_client_sender_def Let_def split: option.splits prod.splits)
  then have w2: "answers api w w2 (ids_of (requests_in pre))"
    using pre(3) by (simp add: answers_def)
  then have "live (outbound w2)"
    by (simp add: answers_def)
  then have w3: "answers api w w3 (ids_of (requests_in pre))"
    using w2 answers_trans [OF w2 log_message_answers] by (auto simp: w3_def split: option.split)
  then have "live (outbound w3)"
    by (simp add: answers_def)
  then have "e \<noteq> Panicked \<and> answers api w3 w' (ids_of (served (receiver c1)))"
    using run_server_answers [OF _ assms(2,3) run] \<open>receiver c2 = receiver c1\<close> by auto
  then show ?thesis
    using pre(1,2) answers_trans [OF w3] by (intro exI [of _ pre] exI [of _ n] exI [of _ "receiver c1"]) simp
qed

end

subsection \<open>Both ends of the wire\<close>

lemma frames_unique:
  assumes "frames (decode parse) c b ms c' b'" and "frames (decode parse) c b ms1 c1 b1"
  shows "ms1 = ms \<and> c1 = c' \<and> b1 = b'"
  using assms by (simp flip: decode_all_frames)

lemma encoded_stream_reads:
  assumes "\<forall>m\<in>set ms. message_wf m \<and> json_text_faithful parse print m"
    and "concat chunks = encode_all print ms []" and "chunks \<noteq> []"
  shows "feeds (decode parse) codec_new [] chunks got c b \<longleftrightarrow> got = map message_canon ms \<and> c = codec_new \<and> b = []"
  using lsp_stream.chunking [OF assms(3), of parse codec_new "[]" got c b] frames_encode_all [OF assms(1)]
    frames_unique [of parse codec_new "encode_all print ms []"] assms(2) by auto

lemma response_ids_canon [simp]: "response_ids (map message_canon ms) = response_ids ms"
  by (induction ms rule: response_ids.induct) simp_all


text \<open>
  A session with a request that is too early, the handshake, a document that is opened and
  formatted, shutdown and exit, with real JSON text in both directions. While the formatting
  handler sleeps, the drain task writes what is queued.
\<close>

definition ref_session :: "message list" where
  "ref_session =
     [Request (request_new (IntegerId 7) ''hover'' None), Request (request_new (IntegerId 1) ''initialize'' None),
      Notification (notification_new ''initialized'' None)] @ ref_edit_session"

definition ref_session_conn :: connection where
  "ref_session_conn = ref_conn\<lparr>receiver := map (\<lambda>m. Next (Some (Inr m))) ref_session\<rparr>"

definition ref_log :: "message_type \<Rightarrow> string \<Rightarrow> message" where
  "ref_log t s = Notification (notification_new ''window/logMessage'' (Some (ref_log_value t s)))"

definition ref_session_early :: "message list" where
  "ref_session_early =
     [not_initialized_response (request_new (IntegerId 7) ''hover'' None),
      Response (response_ok (IntegerId 1) (JObject [(''capabilities'', ref_capabilities_value server_capabilities)])),
      ref_log INFO ''Formatter server ready'', ref_log LOG ''Formatting document: file:///a'']"

definition ref_session_late :: "message list" where
  "ref_session_late =
     [ref_log LOG ''Formatting complete: 1 edits'',
      Response (response_ok (IntegerId 2) (JArray [ref_edit_value
        \<lparr>edit_range = \<lparr>range_start = \<lparr>line = 0, character = 0\<rparr>, range_end = \<lparr>line = 0, character = 2\<rparr>\<rparr>, new_text = ''AB''\<rparr>])),
      Response (response_ok (IntegerId 3) JNull)]"

lemma ref_session_faithful:
  assumes "m \<in> set (ref_session @ ref_session_early @ ref_session_late)"
  shows "json_text_faithful json_read json_write m"
proof -
  have "list_all (\<lambda>m. plain_json (message_serialize m) \<and> length (json_text (message_serialize m)) < 1000)
      (ref_session @ ref_session_early @ ref_session_late)"
    by code_simp
  then have "plain_json (message_serialize m)" "length (json_text (message_serialize m)) < 1000"
    using assms by (auto simp: list_all_iff)
  then show ?thesis
    by (intro json_ref.message_text_faithful) (auto simp: json_write_def usize_max_def split: if_splits)
qed

lemma ref_session_wf: "\<forall>m\<in>set ref_session. message_wf m \<and> message_canon m = m"
proof -
  have "(''text'' :: string) < ''uri''" "(''text'' :: string) < ''version''" "(''uri'' :: string) < ''version''"
    by code_simp+
  then show ?thesis
    by (simp add: ref_session_def ref_edit_session_def request_new_def notification_new_def opt_value_wf_def json_nat_def
        drop_null_def)
qed

lemma ref_session_run:
  "case server_main ref_api hist_tokio hist_pause ref_session_conn hist_world of
     Some (e, st, c', w') \<Rightarrow> outbound w' = (ref_session_early, ref_session_late, True)
   | None \<Rightarrow> False"
  by code_simp


end
