(* ===== verification/Simulation.thy ===== *)
theory Simulation
  imports Main
begin

text \<open>
  Runs of labelled transition systems and forward simulation: every step of a detailed system
  corresponds to a run of actions of an abstract one. An invariant of the abstract system then
  holds, through the simulation relation, in everything the detailed system can reach.
\<close>

inductive run :: "('a \<Rightarrow> 'l \<Rightarrow> 'a \<Rightarrow> bool) \<Rightarrow> 'a \<Rightarrow> 'l list \<Rightarrow> 'a \<Rightarrow> bool"
  for step where
  run_nil: "run step a [] a"
| run_cons: "step a l b \<Longrightarrow> run step b ls c \<Longrightarrow> run step a (l # ls) c"

inductive_simps run_nil_iff [simp]: "run step a [] b"
inductive_simps run_cons_iff: "run step a (l # ls) c"

lemma run_append:
  "run step a ks b \<Longrightarrow> run step b ls c \<Longrightarrow> run step a (ks @ ls) c"
  by (induction rule: run.induct) (auto intro: run.intros)

lemma run_single: "step a l b \<Longrightarrow> run step a [l] b"
  by (blast intro: run.intros)

lemma run_preserves:
  assumes "run step a ls b" and "\<And>a l b. step a l b \<Longrightarrow> I a \<Longrightarrow> I b" and "I a"
  shows "I b"
  using assms(1,3) by (induction rule: run.induct) (auto intro: assms(2))

text \<open>A relation between states that every step respects is respected by every run.\<close>

lemma run_relates:
  assumes "run step a ls b" and "\<And>a l b. step a l b \<Longrightarrow> P a b"
    and "\<And>a. P a a" and "\<And>a b c. P a b \<Longrightarrow> P b c \<Longrightarrow> P a c"
  shows "P a b"
  using assms(1)
proof (induction rule: run.induct)
  case (run_cons a l b ls c)
  then show ?case
    using assms(2,4) by blast
qed (rule assms(3))

locale forward_simulation =
  fixes cstep :: "'s \<Rightarrow> 's \<Rightarrow> bool"
    and astep :: "'a \<Rightarrow> 'l \<Rightarrow> 'a \<Rightarrow> bool"
    and rel :: "'s \<Rightarrow> 'a \<Rightarrow> bool"
  assumes simulate: "cstep s s' \<Longrightarrow> rel s a \<Longrightarrow> \<exists>ls a'. run astep a ls a' \<and> rel s' a'"
begin

lemma reach_simulated:
  assumes "cstep\<^sup>*\<^sup>* s s'" and "rel s a"
  shows "\<exists>ls a'. run astep a ls a' \<and> rel s' a'"
  using assms
proof (induction rule: rtranclp_induct)
  case base
  have "run astep a [] a"
    by simp
  then show ?case
    using base by blast
next
  case (step s1 s2)
  then show ?case
    using simulate run_append by metis
qed

lemma reach_related:
  assumes "cstep\<^sup>*\<^sup>* s s'" and "rel s a" and "I a"
    and "\<And>a l b. astep a l b \<Longrightarrow> I a \<Longrightarrow> I b"
  shows "\<exists>ls a'. run astep a ls a' \<and> rel s' a' \<and> I a'"
proof -
  obtain ls a' where r: "run astep a ls a'" "rel s' a'"
    using reach_simulated [OF assms(1,2)] by blast
  have "I a'"
    by (rule run_preserves [OF r(1), where I = I]) (fact assms(4), fact assms(3))
  with r show ?thesis
    by blast
qed

end

end
