(* ===== verification/Connection_Spec.thy ===== *)
theory Connection_Spec
  imports Handshake Simulation
begin

text \<open>
  What a connection promises, as an abstract machine, and the proof that the connection of
  \<open>src/src/connection.rs\<close> with its trackers, response map, drain task and runtime refines it.

  The abstract machine has no trees of tokens, no shared maps and no event stream. It knows the
  requests it has accepted (each with a flag: cancelled or not), which of them is pending under an
  id, the receivers that wait for a response (filed under an id of the outgoing tracker, \<open>Inl\<close>, or
  of the response map, \<open>Inr\<close>), the outcome of every receiver, the queue of messages to write and
  the lifecycle state.
\<close>

type_synonym waiter = "request_id + request_id"

record spec_state =
  s_state :: lifecycle_state
  s_down :: bool
  s_accepted :: "token \<rightharpoonup> request_id \<times> bool"
  s_pending :: "request_id \<rightharpoonup> token"
  s_filed :: "waiter \<rightharpoonup> oneshot"
  s_outcomes :: "oneshot \<rightharpoonup> oneshot_result"
  s_queue :: "message list"
  s_open :: bool

definition spec_init :: spec_state where
  "spec_init = \<lparr>s_state = Uninitialized, s_down = False, s_accepted = Map.empty, s_pending = Map.empty,
     s_filed = Map.empty, s_outcomes = Map.empty, s_queue = [], s_open = True\<rparr>"

datatype spec_action =
    Accept request_id token
  | Retire request_id
  | Cancel request_id
  | Await waiter oneshot
  | Deliver waiter response
  | Abandon waiter
  | Enqueue message
  | Write message
  | Close
  | Enter lifecycle_state
  | Shut_down

definition cancel_entry :: "request_id \<times> bool \<Rightarrow> request_id \<times> bool" where
  "cancel_entry e = (fst e, True)"

inductive spec_step :: "spec_state \<Rightarrow> spec_action \<Rightarrow> spec_state \<Rightarrow> bool" where
  accept: "s_accepted a t = None \<Longrightarrow> spec_step a (Accept i t)
    (a\<lparr>s_accepted := (s_accepted a)(t \<mapsto> (i, s_down a)), s_pending := (s_pending a)(i \<mapsto> t)\<rparr>)"
| retire: "spec_step a (Retire i) (a\<lparr>s_pending := (s_pending a)(i := None)\<rparr>)"
| cancel: "s_pending a i = Some t \<Longrightarrow> s_accepted a t = Some e \<Longrightarrow>
    spec_step a (Cancel i) (a\<lparr>s_accepted := (s_accepted a)(t \<mapsto> cancel_entry e)\<rparr>)"
| await: "s_outcomes a h = None \<Longrightarrow> spec_step a (Await k h)
    (a\<lparr>s_filed := (s_filed a)(k \<mapsto> h),
       s_outcomes := (case s_filed a k of Some old \<Rightarrow> (s_outcomes a)(old \<mapsto> Rx_closed) | None \<Rightarrow> s_outcomes a)
         (h \<mapsto> Rx_waiting)\<rparr>)"
| deliver: "s_filed a k = Some h \<Longrightarrow> spec_step a (Deliver k r)
    (a\<lparr>s_filed := (s_filed a)(k := None), s_outcomes := (s_outcomes a)(h \<mapsto> Rx_value r)\<rparr>)"
| abandon: "s_filed a k = Some h \<Longrightarrow> spec_step a (Abandon k)
    (a\<lparr>s_filed := (s_filed a)(k := None), s_outcomes := (s_outcomes a)(h \<mapsto> Rx_closed)\<rparr>)"
| enqueue: "s_open a \<Longrightarrow> spec_step a (Enqueue m) (a\<lparr>s_queue := s_queue a @ [m]\<rparr>)"
| written: "s_open a \<Longrightarrow> s_queue a = m # q \<Longrightarrow> spec_step a (Write m) (a\<lparr>s_queue := q\<rparr>)"
| closed: "spec_step a Close (a\<lparr>s_queue := [], s_open := False\<rparr>)"
| enter: "st \<in> {Initializing, Running, Exited} \<Longrightarrow> spec_step a (Enter st) (a\<lparr>s_state := st\<rparr>)"
| shut_down: "spec_step a Shut_down
    (a\<lparr>s_state := ShuttingDown, s_down := True, s_accepted := map_option cancel_entry \<circ> s_accepted a\<rparr>)"

subsection \<open>What the abstract machine keeps\<close>

text \<open>
  The receivers that wait are exactly the filed ones, each under one id.
\<close>

definition waiters_ok :: "(waiter \<rightharpoonup> oneshot) \<Rightarrow> (oneshot \<rightharpoonup> oneshot_result) \<Rightarrow> bool" where
  "waiters_ok f out \<longleftrightarrow>
     inj_on f (dom f) \<and> (\<forall>h. out h = Some Rx_waiting \<longleftrightarrow> h \<in> ran f)"

lemma waiters_ok_filed: "waiters_ok f out \<Longrightarrow> f k = Some h \<Longrightarrow> out h = Some Rx_waiting"
  by (auto simp: waiters_ok_def ran_def)

lemma waiters_ok_waiting: "waiters_ok f out \<Longrightarrow> out h = Some Rx_waiting \<Longrightarrow> \<exists>k. f k = Some h"
  by (auto simp: waiters_ok_def ran_def)

lemma waiters_ok_settle:
  assumes "waiters_ok f out" and "f k = Some h" and "v \<noteq> Rx_waiting"
  shows "waiters_ok (f(k := None)) (out(h \<mapsto> v))"
proof -
  have "inj_on (f(k := None)) (dom (f(k := None)))"
    using assms(1) by (auto simp: waiters_ok_def inj_on_def)
  moreover have "ran (f(k := None)) = ran f - {h}"
    using assms(1,2) by (fastforce simp: waiters_ok_def ran_def inj_on_def dom_def split: if_splits)
  ultimately show ?thesis
    using assms(1,3) by (simp add: waiters_ok_def)
qed

lemma waiters_ok_file:
  assumes "waiters_ok f out" and "out h = None" and "f k = None"
  shows "waiters_ok (f(k \<mapsto> h)) (out(h \<mapsto> Rx_waiting))"
proof -
  have "h \<notin> ran f"
    using assms(1,2) by (force simp: waiters_ok_def)
  then have "inj_on (f(k \<mapsto> h)) (dom (f(k \<mapsto> h)))"
    using assms(1) by (auto simp: waiters_ok_def inj_on_def ran_def)
  then show ?thesis
    using assms(1,3) by (simp add: waiters_ok_def)
qed

lemma waiters_ok_replace:
  assumes "waiters_ok f out" and "out h = None" and "f k = Some old"
  shows "waiters_ok (f(k \<mapsto> h)) (out(old \<mapsto> Rx_closed, h \<mapsto> Rx_waiting))"
proof -
  have "h \<noteq> old"
    using waiters_ok_filed [OF assms(1,3)] assms(2) by auto
  then show ?thesis
    using waiters_ok_file [OF waiters_ok_settle [OF assms(1,3)], of Rx_closed h k] assms(2) by simp
qed

text \<open>
  A pending id leads to a request accepted under it; after shutdown every request is cancelled.
\<close>

definition requests_ok :: "spec_state \<Rightarrow> bool" where
  "requests_ok a \<longleftrightarrow>
     (\<forall>i t. s_pending a i = Some t \<longrightarrow> (\<exists>b. s_accepted a t = Some (i, b)))
     \<and> (s_down a \<longrightarrow> (\<forall>t i. s_accepted a t \<noteq> Some (i, False)))
     \<and> (s_state a = ShuttingDown \<longrightarrow> s_down a)"

definition spec_ok :: "spec_state \<Rightarrow> bool" where
  "spec_ok a \<longleftrightarrow> requests_ok a \<and> waiters_ok (s_filed a) (s_outcomes a)"

lemma spec_ok_init: "spec_ok spec_init"
  by (simp add: spec_ok_def spec_init_def requests_ok_def waiters_ok_def)

lemma requests_ok_pending: "requests_ok a \<Longrightarrow> s_pending a i = Some t \<Longrightarrow> \<exists>b. s_accepted a t = Some (i, b)"
  by (simp add: requests_ok_def)

lemma requests_ok_down: "requests_ok a \<Longrightarrow> s_down a \<Longrightarrow> s_accepted a t \<noteq> Some (i, False)"
  by (auto simp: requests_ok_def)

lemma requests_okI:
  assumes "\<And>i t. s_pending a i = Some t \<Longrightarrow> \<exists>b. s_accepted a t = Some (i, b)"
    and "\<And>t i. s_down a \<Longrightarrow> s_accepted a t \<noteq> Some (i, False)" and "s_state a = ShuttingDown \<Longrightarrow> s_down a"
  shows "requests_ok a"
  using assms by (simp add: requests_ok_def)

lemma spec_step_requests_ok:
  assumes "spec_step a l b" and "requests_ok a"
  shows "requests_ok b"
proof -
  note pend = requests_ok_pending [OF assms(2)] and down = requests_ok_down [OF assms(2)]
  have st: "s_state a = ShuttingDown \<Longrightarrow> s_down a"
    using assms(2) by (simp add: requests_ok_def)
  show ?thesis
    using assms(1)
  proof (cases rule: spec_step.cases)
    case (accept t i)
    then show ?thesis
      by (intro requests_okI) (auto dest: pend down st split: if_splits)
  next
    case (cancel i t e)
    have "\<exists>b. (if u = t then Some (fst e, True) else s_accepted a u) = Some (j, b)" if "s_pending a j = Some u" for j u
      using pend [OF that] cancel by auto
    with cancel show ?thesis
      by (intro requests_okI) (auto simp: cancel_entry_def dest: down st split: if_splits)
  next
    case shut_down
    then show ?thesis
      by (intro requests_okI) (auto simp: cancel_entry_def dest: pend)
  next
    case (enter st)
    then show ?thesis
      by (intro requests_okI) (auto dest: pend down)
  qed (use assms(2) in \<open>simp_all add: requests_ok_def\<close>)
qed

lemma spec_step_waiters_ok:
  "spec_step a l b \<Longrightarrow> waiters_ok (s_filed a) (s_outcomes a) \<Longrightarrow> waiters_ok (s_filed b) (s_outcomes b)"
  by (induction rule: spec_step.induct)
    (auto simp: waiters_ok_settle waiters_ok_file waiters_ok_replace split: option.split)

lemma spec_ok_step: "spec_step a l b \<Longrightarrow> spec_ok a \<Longrightarrow> spec_ok b"
  using spec_step_requests_ok spec_step_waiters_ok by (simp add: spec_ok_def)

text \<open>
  What never goes back: shutdown, a closed queue, a cancelled request, a settled receiver; and a
  receiver is never filed again under another id.
\<close>

definition spec_monotone :: "spec_state \<Rightarrow> spec_state \<Rightarrow> bool" where
  "spec_monotone a b \<longleftrightarrow>
     (s_down a \<longrightarrow> s_down b) \<and> (s_open b \<longrightarrow> s_open a)
     \<and> dom (s_accepted a) \<subseteq> dom (s_accepted b) \<and> dom (s_outcomes a) \<subseteq> dom (s_outcomes b)
     \<and> (\<forall>t i. s_accepted a t = Some (i, True) \<longrightarrow> s_accepted b t = Some (i, True))
     \<and> (\<forall>h v. s_outcomes a h = Some v \<and> v \<noteq> Rx_waiting \<longrightarrow> s_outcomes b h = Some v)
     \<and> (\<forall>k h. s_filed b k = Some h \<and> h \<in> dom (s_outcomes a) \<longrightarrow> s_filed a k = Some h)"

lemma spec_monotone_refl: "spec_monotone a a"
  by (simp add: spec_monotone_def)

lemma spec_monotone_trans: "spec_monotone a b \<Longrightarrow> spec_monotone b c \<Longrightarrow> spec_monotone a c"
  unfolding spec_monotone_def by (elim conjE, intro conjI) (blast, blast, blast, blast, simp, simp, blast)

lemma spec_monotone_step:
  assumes "spec_step a l b" and "spec_ok a"
  shows "spec_monotone a b"
proof -
  have filed: "s_filed a k = Some h \<Longrightarrow> s_outcomes a h = Some Rx_waiting" for k h
    using assms(2) waiters_ok_filed by (auto simp: spec_ok_def)
  show ?thesis
    using assms(1)
  proof (cases rule: spec_step.cases)
    case (await h k)
    then show ?thesis
      by (cases "s_filed a k") (auto simp: spec_monotone_def filed split: if_splits)
  qed (auto simp: spec_monotone_def cancel_entry_def filed domI split: if_splits)
qed

subsection \<open>How the connection represents the abstract machine\<close>

text \<open>The requests handed out, with the state of their tokens.\<close>

definition accepted_of :: "(token \<Rightarrow> bool) \<Rightarrow> (request_id \<times> token) list \<Rightarrow> token \<rightharpoonup> request_id \<times> bool" where
  "accepted_of cancelled hs = map_of (map (\<lambda>(i, t). (t, (i, cancelled t))) hs)"

lemma accepted_of_eq:
  "accepted_of cancelled hs t = map_option (\<lambda>i. (i, cancelled t)) (map_of (map prod.swap hs) t)"
  unfolding accepted_of_def by (induction hs) auto

lemma accepted_of_simps [simp]:
  "accepted_of cancelled [] = Map.empty"
  "accepted_of cancelled ((i, t) # hs) = (accepted_of cancelled hs)(t \<mapsto> (i, cancelled t))"
  by (simp_all add: accepted_of_def)

lemma map_of_swap_dom: "map_of (map prod.swap hs) t = None \<longleftrightarrow> t \<notin> snd ` set hs"
  by (induction hs) auto

lemma accepted_of_None: "accepted_of cancelled hs t = None \<longleftrightarrow> t \<notin> snd ` set hs"
  by (simp add: accepted_of_eq map_of_swap_dom)

lemma accepted_of_cong:
  assumes "\<And>t. t \<in> snd ` set hs \<Longrightarrow> f t = g t"
  shows "accepted_of f hs = accepted_of g hs"
proof
  fix t
  show "accepted_of f hs t = accepted_of g hs t"
  proof (cases "t \<in> snd ` set hs")
    case False
    then show ?thesis
      by (metis accepted_of_None)
  qed (simp add: accepted_of_eq assms)
qed

lemma accepted_of_Some:
  assumes "distinct (map snd hs)" and "(i, t) \<in> set hs"
  shows "accepted_of f hs t = Some (i, f t)"
  using assms unfolding accepted_of_def
  by (intro map_of_is_SomeI) (force simp: distinct_map comp_def case_prod_beta)+

definition tokens_rel ::
  "('tw, 'ow, 'mw) tokio \<Rightarrow> connection \<Rightarrow> 'tw \<Rightarrow> (request_id \<times> token) list \<Rightarrow> spec_state \<Rightarrow> bool" where
  "tokens_rel tk c tw hs a \<longleftrightarrow>
     s_state a = conn_state c \<and> s_down a = is_cancelled tk (conn_shutdown_token c) tw
     \<and> s_pending a = in_pending (incoming (conn_queue c))
     \<and> s_accepted a = accepted_of (\<lambda>t. is_cancelled tk t tw) hs"

definition senders_rel ::
  "('tw, 'ow, 'mw) tokio \<Rightarrow> ('ow \<Rightarrow> oneshot set) \<Rightarrow> (waiter \<rightharpoonup> oneshot) \<Rightarrow> 'ow \<Rightarrow> spec_state \<Rightarrow> bool" where
  "senders_rel tk opened f ow a \<longleftrightarrow>
     s_filed a = f \<and> (\<forall>h v. s_outcomes a h = Some v \<longrightarrow> h \<in> opened ow \<and> oneshot_poll tk h ow = v)"

definition queue_rel :: "('mw \<Rightarrow> message list) \<Rightarrow> ('mw \<Rightarrow> bool) \<Rightarrow> 'mw \<Rightarrow> spec_state \<Rightarrow> bool" where
  "queue_rel queued live mw a \<longleftrightarrow> s_open a = live mw \<and> (live mw \<longrightarrow> s_queue a = queued mw)"

text \<open>
  The token of the drain task is a token of its own, and it is cancelled exactly when the channel
  is closed.
\<close>

definition drain_inv ::
  "('tw, 'ow, 'mw) tokio \<Rightarrow> ('tw \<Rightarrow> token set) \<Rightarrow> ('tw \<Rightarrow> token \<Rightarrow> token \<Rightarrow> bool) \<Rightarrow> ('mw \<Rightarrow> bool)
     \<Rightarrow> connection \<Rightarrow> 'tw \<Rightarrow> 'mw \<Rightarrow> (request_id \<times> token) list \<Rightarrow> bool" where
  "drain_inv tk known descends live c tw mw hs \<longleftrightarrow>
     (let alive = conn_drain_alive c in
      alive \<in> known tw \<and> alive \<noteq> conn_shutdown_token c \<and> alive \<notin> snd ` set hs
      \<and> (\<forall>x. descends tw alive x \<longleftrightarrow> x = alive) \<and> (is_cancelled tk alive tw \<longleftrightarrow> \<not> live mw))"

definition conn_rel ::
  "('tw, 'ow, 'mw) tokio \<Rightarrow> ('tw \<Rightarrow> token set) \<Rightarrow> ('tw \<Rightarrow> token \<Rightarrow> token \<Rightarrow> bool) \<Rightarrow> ('ow \<Rightarrow> oneshot set)
     \<Rightarrow> ('mw \<Rightarrow> message list) \<Rightarrow> ('mw \<Rightarrow> bool) \<Rightarrow> ('tw, 'ow, 'mw) conn_sys \<Rightarrow> spec_state \<Rightarrow> bool" where
  "conn_rel tk known descends opened queued live s a \<longleftrightarrow>
     (case s of (c, w, hs) \<Rightarrow>
        conn_inv tk known descends opened s \<and> spec_ok a
        \<and> tokens_rel tk c (tokens w) hs a \<and> drain_inv tk known descends live c (tokens w) (outbound w) hs
        \<and> senders_rel tk opened (filed c w) (oneshots w) a \<and> queue_rel queued live (outbound w) a)"

subsection \<open>Sending and writing\<close>

inductive sends :: "('tw, 'ow, 'mw) tokio \<Rightarrow> ('tw, 'ow, 'mw) world \<Rightarrow> ('tw, 'ow, 'mw) world \<Rightarrow> bool"
  for tk :: "('tw, 'ow, 'mw) tokio" where
  sends_none: "sends tk w w"
| sends_one: "outbound_send tk m w = (ok, w1) \<Longrightarrow> sends tk w1 w2 \<Longrightarrow> sends tk w w2"

lemma conn_send_sends: "conn_send tk m w = (r, w1) \<Longrightarrow> sends tk w1 w2 \<Longrightarrow> sends tk w w2"
  by (auto simp: conn_send_def split: prod.splits intro: sends.intros)

lemma init_start_loop_sends: "initialize_start_loop tk c es w = (r, c', w') \<Longrightarrow> sends tk w w'"
proof (induction es arbitrary: w)
  case (Cons e es)
  then show ?case
    by (cases e rule: recv_event_cases)
      (auto split: if_splits prod.splits sum.splits intro: sends.intros conn_send_sends)
qed (auto intro: sends.intros)

lemma init_finish_loop_sends: "initialize_finish_loop tk c es w = (r, c', w') \<Longrightarrow> sends tk w w'"
proof (induction es arbitrary: w)
  case (Cons e es)
  then show ?case
    by (cases e rule: recv_event_cases)
      (auto split: if_splits prod.splits sum.splits intro: sends.intros conn_send_sends)
qed (auto intro: sends.intros)

lemma initialize_start_sends: "initialize_start tk c w = (r, c', w') \<Longrightarrow> sends tk w w'"
  unfolding initialize_start_def by (rule init_start_loop_sends)

lemma initialize_finish_sends: "initialize_finish tk c i v w = (r, c', w') \<Longrightarrow> sends tk w w'"
  by (auto simp: initialize_finish_def split: prod.splits sum.splits
      intro: sends.intros conn_send_sends init_finish_loop_sends)

lemma send_request_sends: "send_request tk c i m p w = (r, c', w') \<Longrightarrow> sends tk w w'"
  by (auto simp: send_request_def split: prod.splits sum.splits intro: sends.intros conn_send_sends)

lemma sends_frame: "sends tk w w' \<Longrightarrow> outbound_only w w'"
  by (induction rule: sends.induct)
    (auto simp: outbound_send_def outbound_only_def split: prod.splits)

lemma run_writes:
  assumes "s_open a" and "s_queue a = ms @ q"
  shows "run spec_step a (map Write ms) (a\<lparr>s_queue := q\<rparr>)"
  using assms
proof (induction ms arbitrary: a)
  case (Cons m ms)
  have "spec_step a (Write m) (a\<lparr>s_queue := ms @ q\<rparr>)"
    using Cons.prems by (intro spec_step.written) simp_all
  moreover have "run spec_step (a\<lparr>s_queue := ms @ q\<rparr>) (map Write ms) (a\<lparr>s_queue := q\<rparr>)"
    using Cons.IH [of "a\<lparr>s_queue := ms @ q\<rparr>"] Cons.prems by simp
  ultimately show ?case
    by (simp add: run.run_cons)
qed simp

context outbound_channel
begin

lemma sends_queue:
  assumes "sends tk w w'" and "queue_rel queued live (outbound w) a"
  shows "\<exists>ms. run spec_step a (map Enqueue ms) (a\<lparr>s_queue := s_queue a @ ms\<rparr>)
    \<and> queue_rel queued live (outbound w') (a\<lparr>s_queue := s_queue a @ ms\<rparr>) \<and> live (outbound w') = live (outbound w)"
  using assms
proof (induction arbitrary: a rule: sends.induct)
  case (sends_none w)
  then show ?case
    by (intro exI [of _ "[]"]) simp
next
  case (sends_one m w ok w1 w2)
  have sent: "mpsc_send tk m (outbound w) = (ok, outbound w1)"
    using sends_one.hyps(1) by (auto simp: outbound_send_def split: prod.splits)
  show ?case
  proof (cases "live (outbound w)")
    case True
    let ?a = "a\<lparr>s_queue := s_queue a @ [m]\<rparr>"
    have "spec_step a (Enqueue m) ?a"
      by (rule spec_step.enqueue) (use sends_one.prems True in \<open>simp add: queue_rel_def\<close>)
    moreover have live: "live (outbound w1)" "queue_rel queued live (outbound w1) ?a"
      using send_live [OF True sent] sends_one.prems True by (simp_all add: queue_rel_def)
    moreover from this obtain ms where "run spec_step ?a (map Enqueue ms) (?a\<lparr>s_queue := s_queue ?a @ ms\<rparr>)"
      "queue_rel queued live (outbound w2) (?a\<lparr>s_queue := s_queue ?a @ ms\<rparr>)" "live (outbound w2) = live (outbound w1)"
      using sends_one.IH by blast
    ultimately show ?thesis
      using True by (intro exI [of _ "m # ms"]) (auto intro: run.intros)
  next
    case False
    then have "queue_rel queued live (outbound w1) a" "\<not> live (outbound w1)"
      using send_dead [OF False sent] sends_one.prems by (auto simp: queue_rel_def)
    then show ?thesis
      using sends_one.IH False by auto
  qed
qed

lemma drain_queue:
  assumes "drain_task tk alive gone rs w = (ms, ended, w')" and "live (outbound w)"
    and "queue_rel queued live (outbound w) a"
  shows "\<exists>ls q. run spec_step a ls (a\<lparr>s_queue := q, s_open := \<not> ended\<rparr>)
    \<and> queue_rel queued live (outbound w') (a\<lparr>s_queue := q, s_open := \<not> ended\<rparr>) \<and> live (outbound w') = (\<not> ended)"
proof -
  note order = drain_task_order [OF assms(1)]
  have a: "s_open a" "s_queue a = queued (outbound w)"
    using assms(2,3) by (simp_all add: queue_rel_def)
  obtain q where q: "queued (outbound w) = ms @ q" "\<not> ended \<Longrightarrow> q = queued (outbound w')"
    using order by (auto simp: prefix_def)
  have writes: "run spec_step a (map Write ms) (a\<lparr>s_queue := q\<rparr>)"
    using a q(1) by (intro run_writes) simp_all
  show ?thesis
  proof (cases ended)
    case True
    have "run spec_step a (map Write ms @ [Close]) (a\<lparr>s_queue := [], s_open := \<not> ended\<rparr>)"
      using run_append [OF writes run_single [of spec_step, OF spec_step.closed]] True by simp
    then show ?thesis
      using True order by (intro exI conjI) (auto simp: queue_rel_def)
  next
    case False
    have "a\<lparr>s_queue := q, s_open := \<not> ended\<rparr> = a\<lparr>s_queue := q\<rparr>"
      using False a(1) by simp
    with writes have "run spec_step a (map Write ms) (a\<lparr>s_queue := q, s_open := \<not> ended\<rparr>)"
      by simp
    then show ?thesis
      using False order q(2) assms(2) by (intro exI conjI) (auto simp: queue_rel_def)
  qed
qed

end

subsection \<open>Requests\<close>

context cancellation_tokens
begin

lemma handed_cancel:
  assumes "tokens_inv tk known descends c tw hs" and "t \<in> snd ` set hs" and "u \<in> insert (conn_shutdown_token c) (snd ` set hs)"
  shows "is_cancelled tk u (token_cancel tk t tw) \<longleftrightarrow> is_cancelled tk u tw \<or> u = t"
proof -
  have "descends tw (conn_shutdown_token c) x \<longleftrightarrow> x = conn_shutdown_token c" "conn_shutdown_token c \<notin> snd ` set hs"
    "u \<in> snd ` set hs \<Longrightarrow> descends tw u x \<longleftrightarrow> x = u \<or> x = conn_shutdown_token c" for u x
    using assms(1) unfolding tokens_inv_def Let_def by blast+
  then show ?thesis
    using assms(2,3) unfolding cancel_token by (metis insert_iff)
qed

lemma cancel_pending_rel:
  assumes inv: "tokens_inv tk known descends c tw hs" and rel: "tokens_rel tk c tw hs a"
    and "in_pending (incoming (conn_queue c)) i = Some t"
  shows "\<exists>e. s_accepted a t = Some e \<and> tokens_rel tk c (token_cancel tk t tw) hs
    (a\<lparr>s_accepted := (s_accepted a)(t \<mapsto> cancel_entry e)\<rparr>)"
proof -
  have t: "(i, t) \<in> set hs" "distinct (map snd hs)" "conn_shutdown_token c \<notin> snd ` set hs"
    using inv assms(3) by (auto simp: tokens_inv_def Let_def)
  then have th: "t \<in> snd ` set hs"
    by force
  note can = handed_cancel [OF inv th]
  let ?f = "\<lambda>t. is_cancelled tk t tw" and ?g = "\<lambda>u. is_cancelled tk u (token_cancel tk t tw)"
  have "accepted_of ?g hs u = ((accepted_of ?f hs)(t \<mapsto> cancel_entry (i, ?f t))) u" for u
  proof (cases "u \<in> snd ` set hs")
    case True
    then show ?thesis
      using can [of u] accepted_of_Some [OF t(2,1)] by (auto simp: accepted_of_eq cancel_entry_def)
  next
    case False
    then have "accepted_of ?g hs u = None" "accepted_of ?f hs u = None" "u \<noteq> t"
      using th by (auto simp: accepted_of_None)
    then show ?thesis
      by simp
  qed
  moreover have "?g (conn_shutdown_token c) = ?f (conn_shutdown_token c)"
    using can [of "conn_shutdown_token c"] t(3) th by auto
  ultimately show ?thesis
    using rel accepted_of_Some [OF t(2,1), of ?f] by (auto simp: tokens_rel_def)
qed

lemma drain_inv_cancel:
  assumes "drain_inv tk known descends live c tw mw hs" and "t \<noteq> conn_drain_alive c"
  shows "drain_inv tk known descends live c (token_cancel tk t tw) mw hs"
  using assms by (simp add: drain_inv_def Let_def cancel_token)

lemma shutdown_rel:
  assumes inv: "tokens_inv tk known descends c tw hs" and rel: "tokens_rel tk c tw hs a"
    and c': "c' = c\<lparr>conn_state := ShuttingDown\<rparr>"
  shows "tokens_rel tk c' (token_cancel tk (conn_shutdown_token c) tw) hs
    (a\<lparr>s_state := ShuttingDown, s_down := True, s_accepted := map_option cancel_entry \<circ> s_accepted a\<rparr>)"
proof -
  let ?f = "\<lambda>t. is_cancelled tk t tw" and ?g = "\<lambda>u. is_cancelled tk u (token_cancel tk (conn_shutdown_token c) tw)"
  have g: "?g u" if "u \<in> insert (conn_shutdown_token c) (snd ` set hs)" for u
    using inv that by (auto simp: tokens_inv_def Let_def cancel_token)
  have "accepted_of ?g hs u = map_option cancel_entry (accepted_of ?f hs u)" for u
  proof (cases "u \<in> snd ` set hs")
    case True
    then show ?thesis
      using g [of u] by (auto simp: accepted_of_eq cancel_entry_def option.map_comp comp_def)
  next
    case False
    then have "accepted_of ?g hs u = None" "accepted_of ?f hs u = None"
      by (simp_all add: accepted_of_None)
    then show ?thesis
      by simp
  qed
  then show ?thesis
    using rel g c' by (auto simp: tokens_rel_def fun_eq_iff)
qed

lemma accept_rel:
  assumes inv: "tokens_inv tk known descends c (tokens w) hs" and rel: "tokens_rel tk c (tokens w) hs a"
    and drain: "drain_inv tk known descends live c (tokens w) (outbound w) hs"
    and r: "route_request tk c req w = (r, c', w')"
  obtains t where "r = IncomingRequest req t" and "s_accepted a t = None"
    and "tokens_rel tk c' (tokens w') ((req_id req, t) # hs)
      (a\<lparr>s_accepted := (s_accepted a)(t \<mapsto> (req_id req, s_down a)), s_pending := (s_pending a)(req_id req \<mapsto> t)\<rparr>)"
    and "drain_inv tk known descends live c' (tokens w') (outbound w') ((req_id req, t) # hs)"
    and "oneshots w' = oneshots w" and "filed c' w' = filed c w" and "outbound w' = outbound w"
proof -
  let ?st = "conn_shutdown_token c" and ?tw = "tokens w"
  obtain t tw where t: "child_token tk ?st ?tw = (t, tw)"
    by fastforce
  have out: "r = IncomingRequest req t" "w' = w\<lparr>tokens := tw\<rparr>"
    "c' = c\<lparr>conn_queue := (conn_queue c)\<lparr>incoming := incoming_register (incoming (conn_queue c)) (req_id req) t\<rparr>\<rparr>"
    using r t by (auto simp: route_request_def Let_def)
  have known: "?st \<in> known ?tw" "u \<in> snd ` set hs \<Longrightarrow> u \<in> known ?tw" for u
    using inv by (auto simp: tokens_inv_def Let_def)
  have new: "t \<notin> known ?tw" "is_cancelled tk t tw = is_cancelled tk ?st ?tw" "known tw = insert t (known ?tw)"
    "\<And>u. u \<in> known ?tw \<Longrightarrow> is_cancelled tk u tw = is_cancelled tk u ?tw"
    "\<And>u x. descends tw u x \<longleftrightarrow> descends ?tw u x \<or> u = t \<and> (x = t \<or> descends ?tw ?st x)"
    using new_child [OF t known(1)] by blast+
  have fresh: "t \<notin> snd ` set hs"
    using new(1) known(2) by blast
  have "accepted_of (\<lambda>u. is_cancelled tk u tw) hs = accepted_of (\<lambda>u. is_cancelled tk u ?tw) hs"
    by (rule accepted_of_cong) (use known(2) new(4) in blast)
  then have "tokens_rel tk c' (tokens w') ((req_id req, t) # hs)
      (a\<lparr>s_accepted := (s_accepted a)(t \<mapsto> (req_id req, s_down a)), s_pending := (s_pending a)(req_id req \<mapsto> t)\<rparr>)"
    using rel out(2,3) new(2,4) known(1) by (simp add: tokens_rel_def incoming_register_def)
  moreover have "drain_inv tk known descends live c' (tokens w') (outbound w') ((req_id req, t) # hs)"
    using drain out(2,3) new by (auto simp: drain_inv_def Let_def)
  moreover have "filed c' w' = filed c w"
    using out(2,3) by (intro filed_eqI) simp_all
  moreover have "s_accepted a t = None"
    using rel fresh by (simp add: tokens_rel_def accepted_of_None)
  ultimately show ?thesis
    using out(2) by (intro that [OF out(1)]) simp_all
qed

end

subsection \<open>Receivers\<close>

context oneshot_channels
begin

lemma settle_rel:
  assumes "senders_ok tk opened f ow" and "f k = Some h" and "senders_rel tk opened f ow a"
    and "ow' = oneshot_send tk h r ow \<and> v = Rx_value r \<or> ow' = oneshot_drop tk h ow \<and> v = Rx_closed"
  shows "senders_rel tk opened (f(k := None)) ow'
    (a\<lparr>s_filed := (s_filed a)(k := None), s_outcomes := (s_outcomes a)(h \<mapsto> v)\<rparr>)"
  using assms(3) take_sender [OF assms(1,2,4)] assms(1,2)
  by (auto simp: senders_rel_def senders_ok_def)

lemma await_rel:
  assumes "senders_ok tk opened f ow" and "senders_rel tk opened f ow a" and "oneshot_channel tk ow = (h, ow1)"
    and "ow2 = (case f k of Some old \<Rightarrow> oneshot_drop tk old ow1 | None \<Rightarrow> ow1)"
  shows "s_outcomes a h = None \<and> senders_rel tk opened (f(k \<mapsto> h)) ow2
    (a\<lparr>s_filed := (s_filed a)(k \<mapsto> h),
       s_outcomes := (case s_filed a k of Some old \<Rightarrow> (s_outcomes a)(old \<mapsto> Rx_closed) | None \<Rightarrow> s_outcomes a)
         (h \<mapsto> Rx_waiting)\<rparr>)"
proof -
  note filing = file_sender [OF assms(1,3,4)]
  have new: "h \<notin> opened ow" "opened ow1 = insert h (opened ow)"
    using new_channel [OF assms(3)] by blast+
  then have opened2: "opened ow2 = insert h (opened ow)"
    using assms(4) by (simp split: option.split)
  have old: "old \<in> opened ow" if "f k = Some old" for old
    using assms(1) that by (simp add: senders_ok_def)
  have out: "g \<in> opened ow \<and> oneshot_poll tk g ow = v" if "s_outcomes a g = Some v" for g v
    using assms(2) that by (simp add: senders_rel_def)
  have "s_outcomes a h = None"
    using out new(1) by (cases "s_outcomes a h") auto
  then show ?thesis
    using assms(2) filing opened2 old out
    by (cases "f k") (auto simp: senders_rel_def split: if_splits)
qed

lemma unused_rel:
  assumes "senders_rel tk opened f ow a" and "oneshot_channel tk ow = (h, ow1)"
  shows "senders_rel tk opened f (oneshot_drop tk h ow1) a"
proof -
  have new: "h \<notin> opened ow" "opened ow1 = insert h (opened ow)"
    "\<And>g. g \<in> opened ow \<Longrightarrow> oneshot_poll tk g ow1 = oneshot_poll tk g ow"
    using new_channel [OF assms(2)] by blast+
  have "oneshot_poll tk g (oneshot_drop tk h ow1) = oneshot_poll tk g ow" if "g \<in> opened ow" for g
    using that new by (metis drop_other)
  then show ?thesis
    using assms(1) new(2) by (simp add: senders_rel_def)
qed

end

subsection \<open>Every step of the connection is a run of the abstract machine\<close>

context tokio_runtime
begin

abbreviation rel :: "('tw, 'ow, 'mw) conn_sys \<Rightarrow> spec_state \<Rightarrow> bool" where
  "rel \<equiv> conn_rel tk known descends opened queued live"

lemma relD:
  assumes "rel (c, w, hs) a"
  shows "tokens_inv tk known descends c (tokens w) hs" "senders_ok tk opened (filed c w) (oneshots w)"
    "tokens_rel tk c (tokens w) hs a" "drain_inv tk known descends live c (tokens w) (outbound w) hs"
    "senders_rel tk opened (filed c w) (oneshots w) a" "queue_rel queued live (outbound w) a"
  using assms by (simp_all add: conn_rel_def conn_inv_def)

lemma rel_step:
  assumes "rel (c, w, hs) a" and "conn_step tk (c, w, hs) (c', w', hs')" and "run spec_step a ls a'"
    and "tokens_rel tk c' (tokens w') hs' a'" and "drain_inv tk known descends live c' (tokens w') (outbound w') hs'"
    and "senders_rel tk opened (filed c' w') (oneshots w') a'" and "queue_rel queued live (outbound w') a'"
  shows "\<exists>ls a'. run spec_step a ls a' \<and> rel (c', w', hs') a'"
proof -
  have "spec_ok a'"
    by (rule run_preserves [OF assms(3), where I = spec_ok]) (use assms(1) spec_ok_step in \<open>auto simp: conn_rel_def\<close>)
  moreover have "inv (c', w', hs')"
    using conn_step_inv [OF assms(2)] assms(1) by (simp add: conn_rel_def)
  ultimately show ?thesis
    using assms(3-7) by (auto simp: conn_rel_def)
qed

lemma sim_quiet:
  assumes "rel (c, w, hs) a" and step: "conn_step tk (c, w, hs) (c', w', hs)" and "sends tk w w'" and c: "same_conn c c'"
    and st: "conn_state c' = conn_state c \<or> conn_state c' \<in> {Initializing, Running, Exited}"
  shows "\<exists>ls a'. run spec_step a ls a' \<and> rel (c', w', hs) a'"
proof -
  note r = relD [OF assms(1)]
  note w = sends_frame [OF assms(3), unfolded outbound_only_def]
  obtain ms where ms: "run spec_step a (map Enqueue ms) (a\<lparr>s_queue := s_queue a @ ms\<rparr>)"
    "queue_rel queued live (outbound w') (a\<lparr>s_queue := s_queue a @ ms\<rparr>)" "live (outbound w') = live (outbound w)"
    using sends_queue [OF assms(3) r(6)] by blast
  let ?a = "a\<lparr>s_queue := s_queue a @ ms, s_state := conn_state c'\<rparr>"
  have "filed c' w' = filed c w"
    using c w by (intro filed_same) simp_all
  then have rels: "tokens_rel tk c' (tokens w') hs ?a" "drain_inv tk known descends live c' (tokens w') (outbound w') hs"
    "senders_rel tk opened (filed c' w') (oneshots w') ?a" "queue_rel queued live (outbound w') ?a"
    using r c w ms(2,3) by (simp_all add: tokens_rel_def drain_inv_def senders_rel_def queue_rel_def same_conn_def)
  have "\<exists>ls. run spec_step a ls ?a"
    using st
  proof
    assume same: "conn_state c' = conn_state c"
    then have "?a = a\<lparr>s_queue := s_queue a @ ms\<rparr>"
      using r(3) by (simp add: tokens_rel_def)
    then show ?thesis
      using ms(1) by auto
  next
    assume "conn_state c' \<in> {Initializing, Running, Exited}"
    from spec_step.enter [OF this, of "a\<lparr>s_queue := s_queue a @ ms\<rparr>"] show ?thesis
      using run_append [OF ms(1) run_single] by fastforce
  qed
  then show ?thesis
    using rel_step [OF assms(1) step _ rels] by blast
qed

lemma sim_cancel:
  assumes "rel (c, w, hs) a" and step: "conn_step tk (c, w, hs) (c, w', hs)"
    and t: "in_pending (incoming (conn_queue c)) i = Some t" and w': "w' = w\<lparr>tokens := token_cancel tk t (tokens w)\<rparr>"
  shows "\<exists>ls a'. run spec_step a ls a' \<and> rel (c, w', hs) a'"
proof -
  note r = relD [OF assms(1)]
  obtain e where e: "s_accepted a t = Some e" "tokens_rel tk c (token_cancel tk t (tokens w)) hs
      (a\<lparr>s_accepted := (s_accepted a)(t \<mapsto> cancel_entry e)\<rparr>)"
    using cancel_pending_rel [OF r(1,3) t] by blast
  have "s_pending a i = Some t"
    using r(3) t by (simp add: tokens_rel_def)
  moreover have "t \<noteq> conn_drain_alive c"
  proof -
    have "t \<in> snd ` set hs"
      using r(1) t unfolding tokens_inv_def Let_def by force
    moreover have "conn_drain_alive c \<notin> snd ` set hs"
      using r(4) unfolding drain_inv_def Let_def by blast
    ultimately show ?thesis
      by blast
  qed
  moreover have "filed c w' = filed c w"
    using w' by (intro filed_same) simp_all
  ultimately show ?thesis
    using rel_step [OF assms(1) step run_single [of spec_step, OF spec_step.cancel [OF _ e(1)]]] e(2) w' r(5,6)
      drain_inv_cancel [OF r(4), of t]
    by (simp add: senders_rel_def queue_rel_def)
qed

text \<open>A receiver is settled, possibly after something was sent.\<close>

lemma sim_settle:
  assumes "rel (c, w, hs) a" and step: "conn_step tk (c, w, hs) (c', w', hs)" and "sends tk w w1"
    and h: "filed c w k = Some h"
    and v: "oneshots w' = oneshot_send tk h x (oneshots w) \<and> v = Rx_value x
      \<or> oneshots w' = oneshot_drop tk h (oneshots w) \<and> v = Rx_closed"
    and out: "filed c' w' = (filed c w)(k := None)" "keeps_incoming c c'" "conn_drain_alive c' = conn_drain_alive c"
      "tokens w' = tokens w" "outbound w' = outbound w1"
  shows "\<exists>ls a'. run spec_step a ls a' \<and> rel (c', w', hs) a'"
proof -
  note r = relD [OF assms(1)]
  obtain ms where ms: "run spec_step a (map Enqueue ms) (a\<lparr>s_queue := s_queue a @ ms\<rparr>)"
    "queue_rel queued live (outbound w1) (a\<lparr>s_queue := s_queue a @ ms\<rparr>)" "live (outbound w1) = live (outbound w)"
    using sends_queue [OF assms(3) r(6)] by blast
  let ?a = "a\<lparr>s_queue := s_queue a @ ms\<rparr>"
  let ?b = "?a\<lparr>s_filed := (s_filed ?a)(k := None), s_outcomes := (s_outcomes ?a)(h \<mapsto> v)\<rparr>"
  have "s_filed ?a k = Some h"
    using r(5) h by (simp add: senders_rel_def)
  then have "\<exists>l. spec_step ?a l ?b"
    using v spec_step.deliver [of ?a k h x] spec_step.abandon [of ?a k h] by blast
  then obtain l where "run spec_step a (map Enqueue ms @ [l]) ?b"
    using run_append [OF ms(1) run_single] by blast
  moreover have "senders_rel tk opened (filed c' w') (oneshots w') ?b"
    using settle_rel [OF r(2) h r(5) v] out(1) by (simp add: senders_rel_def)
  ultimately show ?thesis
    using rel_step [OF assms(1) step, of _ ?b] out(2-5) r(3,4) ms(2,3)
    by (simp add: tokens_rel_def drain_inv_def keeps_incoming_def queue_rel_def)
qed

lemma sim_await:
  assumes "rel (c, w, hs) a" and step: "conn_step tk (c, w, hs) (c', w', hs)"
    and ch: "oneshot_channel tk (oneshots w) = (h, ow1)"
    and ow: "oneshots w' = (case filed c w k of Some old \<Rightarrow> oneshot_drop tk old ow1 | None \<Rightarrow> ow1)"
    and out: "filed c' w' = (filed c w)(k \<mapsto> h)" "keeps_incoming c c'" "conn_drain_alive c' = conn_drain_alive c"
      "tokens w' = tokens w" "outbound w' = outbound w"
  shows "\<exists>ls a'. run spec_step a ls a' \<and> rel (c', w', hs) a'"
proof -
  note r = relD [OF assms(1)]
  note aw = await_rel [OF r(2,5) ch ow]
  show ?thesis
    using rel_step [OF assms(1) step run_single [of spec_step, OF spec_step.await [OF conjunct1 [OF aw], of k]]]
      conjunct2 [OF aw] out r(3,4,6)
    by (simp add: tokens_rel_def drain_inv_def keeps_incoming_def queue_rel_def)
qed

text \<open>A step that leaves the abstract machine as it is.\<close>

lemma sim_skip:
  assumes "rel (c, w, hs) a" and step: "conn_step tk (c, w, hs) (c', w', hs)"
    and "filed c' w' = filed c w" "keeps_incoming c c'" "conn_drain_alive c' = conn_drain_alive c"
      "tokens w' = tokens w" "outbound w' = outbound w" "senders_rel tk opened (filed c w) (oneshots w') a"
  shows "\<exists>ls a'. run spec_step a ls a' \<and> rel (c', w', hs) a'"
  using rel_step [OF assms(1) step run.run_nil] assms(3-8) relD [OF assms(1)]
  by (simp add: tokens_rel_def drain_inv_def keeps_incoming_def)

lemma sim_accept:
  assumes "rel (c, w, hs) a" and "route_request tk c req w = (r, c', w')"
  shows "\<exists>ls a'. run spec_step a ls a' \<and> rel (c', w', handed r @ hs) a'"
proof -
  note rs = relD [OF assms(1)]
  have step: "conn_step tk (c, w, hs) (c', w', handed r @ hs)"
    using assms(2) by (intro Route [where m = "Request req"]) simp
  show ?thesis
  proof (rule accept_rel [OF rs(1,3,4) assms(2)])
    fix t
    let ?a = "a\<lparr>s_accepted := (s_accepted a)(t \<mapsto> (req_id req, s_down a)), s_pending := (s_pending a)(req_id req \<mapsto> t)\<rparr>"
    assume t: "r = IncomingRequest req t" "s_accepted a t = None" "tokens_rel tk c' (tokens w') ((req_id req, t) # hs) ?a"
      "drain_inv tk known descends live c' (tokens w') (outbound w') ((req_id req, t) # hs)"
      "oneshots w' = oneshots w" "filed c' w' = filed c w" "outbound w' = outbound w"
    from rel_step [OF assms(1) step run_single [of spec_step, OF spec_step.accept [OF t(2)]]] show ?thesis
      using t rs(5,6) by (simp add: senders_rel_def queue_rel_def)
  qed
qed

lemma sim_route:
  assumes "rel (c, w, hs) a" and "route tk c m w = (r, c', w')"
  shows "\<exists>ls a'. run spec_step a ls a' \<and> rel (c', w', handed r @ hs) a'"
proof (cases m)
  case (Request req)
  then show ?thesis
    using sim_accept [OF assms(1)] assms(2) by simp
next
  case (Notification n)
  then have n: "route_notification tk c n w = (r, c', w')"
    using assms(2) by simp
  note shape = route_notification_shape [OF n]
  have step: "conn_step tk (c, w, hs) (c, w', hs)"
    using Route [OF assms(2), of hs] shape by simp
  consider "w' = w" | i t where "in_pending (incoming (conn_queue c)) i = Some t"
      "w' = w\<lparr>tokens := token_cancel tk t (tokens w)\<rparr>"
    using n by (auto simp: route_notification_def incoming_cancel_def split: if_splits option.splits)
  then show ?thesis
  proof cases
    case 1
    then show ?thesis
      using assms(1) shape run.run_nil by fastforce
  next
    case (2 i t)
    then show ?thesis
      using sim_cancel [OF assms(1) step 2] shape by simp
  qed
next
  case (Response x)
  then have x: "route_response tk c x w = (r, c', w')"
    using assms(2) by simp
  note shape = route_response_shape [OF x]
  show ?thesis
  proof (cases "response_target c w x")
    case None
    then show ?thesis
      using shape assms(1) run.run_nil by fastforce
  next
    case (Some k)
    then obtain h where h: "filed c w k = Some h" "oneshots w' = oneshot_send tk h x (oneshots w)"
      and out: "filed c' w' = (filed c w)(k := None)" "keeps_incoming c c'" "tokens w' = tokens w" "outbound w' = outbound w"
        "handed r = []"
      using shape by auto
    moreover have "conn_drain_alive c' = conn_drain_alive c"
      using x by (auto simp: route_response_def route_outgoing_def Let_def split: option.splits if_splits prod.splits bool.splits)
    moreover have "conn_step tk (c, w, hs) (c', w', hs)"
      using Route [OF assms(2), of hs] out(5) by simp
    ultimately show ?thesis
      using sim_settle [OF assms(1) _ sends_none h(1), of c' w' x "Rx_value x"] by simp
  qed
qed

end

context tokio_runtime
begin

lemma sim_cancel_out:
  assumes "rel (c, w, hs) a" and "conn_cancel tk c i w = (r, c', w')"
  shows "\<exists>ls a'. run spec_step a ls a' \<and> rel (c', w', hs) a'"
proof -
  note step = Cancel_out [OF assms(2), of hs]
  obtain x w1 where s: "conn_send tk (Notification (cancel_notification i)) w = (x, w1)"
    by fastforce
  note f = conn_send_frame [OF s, unfolded outbound_only_def]
  have sends: "sends tk w w1"
    by (rule conn_send_sends [OF s sends_none])
  show ?thesis
  proof (cases "x = Inr () \<and> filed c w (Inl i) \<noteq> None")
    case True
    then obtain h where h: "out_pending (outgoing (conn_queue c)) i = Some h"
      by auto
    then show ?thesis
      using assms(2) s f True sim_settle [OF assms(1) step sends, of "Inl i" h undefined Rx_closed]
        filed_outgoing [of _ c i None w' w]
      by (auto simp: conn_cancel_def outgoing_cancel_def keeps_incoming_def)
  next
    case False
    then have "w' = w1 \<and> c' = c"
      using assms(2) s by (cases x) (auto simp: conn_cancel_def outgoing_cancel_def split: option.splits)
    then show ?thesis
      using sim_quiet [OF assms(1) step] sends by simp
  qed
qed

lemma sim_client:
  assumes "rel (c, w, hs) a" and m: "conn_response_map c = Some m"
  shows "\<exists>ls a'. run spec_step a ls a' \<and> rel (c, client_step tk m x w, hs) a'"
proof -
  let ?w' = "client_step tk m x w"
  note r = relD [OF assms(1)] and step = Client [OF m, of tk w hs x]
  have same: "filed c w' = filed c w" if "response_maps w' = response_maps w" for w' :: "('tw, 'ow, 'mw) world"
    using that by (intro filed_same) simp_all
  show ?thesis
  proof (cases x)
    case (OpNextId s)
    then show ?thesis
      using next_id_world [OF prod.collapse [symmetric], of s w] same [of ?w'] r(5)
      by (intro sim_skip [OF assms(1) step]) (simp_all add: keeps_incoming_def)
  next
    case (OpTryRegister i)
    obtain g w' where t: "response_map_try_register tk m i w = (g, w')"
      by fastforce
    then show ?thesis
    proof (cases rule: try_register_cases)
      case (1 h ow)
      then show ?thesis
        using OpTryRegister t m filed_map [OF m, of w' w i "Some h"]
        by (intro sim_await [OF assms(1) step 1(2), of "Inr i"]) (simp_all add: keeps_incoming_def)
    next
      case (2 h ow)
      then show ?thesis
        using OpTryRegister t unused_rel [OF r(5) 2(2)] same [of w']
        by (intro sim_skip [OF assms(1) step]) (simp_all add: keeps_incoming_def)
    qed
  next
    case (OpDeliver i y)
    show ?thesis
    proof (cases "response_maps w m i")
      case (Some h)
      then show ?thesis
        using OpDeliver m filed_map [OF m, of ?w' w i None]
        by (intro sim_settle [OF assms(1) step sends_none, of "Inr i" h y "Rx_value y"])
          (simp_all add: response_map_deliver_def keeps_incoming_def)
    qed (use OpDeliver r(5) in \<open>intro sim_skip [OF assms(1) step], simp_all add: response_map_deliver_def keeps_incoming_def\<close>)
  next
    case (OpDropId i)
    show ?thesis
    proof (cases "response_maps w m i")
      case (Some h)
      then show ?thesis
        using OpDropId m filed_map [OF m, of ?w' w i None]
        by (intro sim_settle [OF assms(1) step sends_none, of "Inr i" h undefined "Rx_closed"])
          (simp_all add: response_map_cancel_def keeps_incoming_def)
    qed (use OpDropId r(5) in \<open>intro sim_skip [OF assms(1) step], simp_all add: response_map_cancel_def keeps_incoming_def\<close>)
  next
    case (OpSend y)
    have "sends tk w ?w'"
      using sends_one [where m = y and w = w, OF prod.collapse [symmetric] sends_none] OpSend by simp
    then show ?thesis
      using sim_quiet [OF assms(1) step] by simp
  qed
qed

lemma sim_shutdown:
  assumes "rel (c, w, hs) a" and "handle_shutdown tk c i w = (r, c', w')"
  shows "\<exists>ls a'. run spec_step a ls a' \<and> rel (c', w', hs) a'"
proof -
  note rs = relD [OF assms(1)] and shape = handle_shutdown_shape [OF assms(2)]
  let ?w1 = "w\<lparr>tokens := token_cancel tk (conn_shutdown_token c) (tokens w)\<rparr>"
  let ?a = "a\<lparr>s_state := ShuttingDown, s_down := True, s_accepted := map_option cancel_entry \<circ> s_accepted a\<rparr>"
  obtain x w2 where s: "conn_send tk (Response (response_ok i JNull)) ?w1 = (x, w2)"
    by fastforce
  have w2: "w' = w2"
    using assms(2) s by (cases x) (auto simp: handle_shutdown_def Let_def)
  have sends: "sends tk ?w1 w'"
    unfolding w2 by (rule conn_send_sends [OF s sends_none])
  have "queue_rel queued live (outbound ?w1) ?a"
    using rs(6) by (simp add: queue_rel_def)
  then obtain ms where ms: "run spec_step ?a (map Enqueue ms) (?a\<lparr>s_queue := s_queue ?a @ ms\<rparr>)"
    "queue_rel queued live (outbound w') (?a\<lparr>s_queue := s_queue ?a @ ms\<rparr>)" "live (outbound w') = live (outbound ?w1)"
    using sends_queue [OF sends] by blast
  have "run spec_step a ([Shut_down] @ map Enqueue ms) (?a\<lparr>s_queue := s_queue ?a @ ms\<rparr>)"
    by (rule run_append [OF run_single [of spec_step, OF spec_step.shut_down] ms(1)])
  moreover have "tokens_rel tk c' (tokens w') hs (?a\<lparr>s_queue := s_queue ?a @ ms\<rparr>)"
    using shutdown_rel [OF rs(1,3)] shape by (simp add: tokens_rel_def)
  moreover have "conn_shutdown_token c \<noteq> conn_drain_alive c"
    using rs(4) unfolding drain_inv_def Let_def by metis
  then have "drain_inv tk known descends live c' (tokens w') (outbound w') hs"
    using drain_inv_cancel [OF rs(4), of "conn_shutdown_token c"] shape ms(3) by (simp add: drain_inv_def)
  moreover have "filed c' w' = filed c w"
    using shape by (intro filed_same) simp_all
  ultimately show ?thesis
    using rel_step [OF assms(1) Shutdown [OF assms(2)]] ms(2) rs(5) shape by (simp add: senders_rel_def)
qed

lemma sim_drain:
  assumes "rel (c, w, hs) a" and "drain_task tk (conn_drain_alive c) gone rs w = (ms, ended, w')"
    and "\<not> is_cancelled tk (conn_drain_alive c) (tokens w)"
  shows "\<exists>ls a'. run spec_step a ls a' \<and> rel (c, w', hs) a'"
proof -
  note r = relD [OF assms(1)] and shape = drain_task_frame [OF assms(2)]
  let ?d = "conn_drain_alive c"
  have d: "?d \<in> known (tokens w)" "?d \<noteq> conn_shutdown_token c" "?d \<notin> snd ` set hs" "live (outbound w)"
    "descends (tokens w) ?d x \<longleftrightarrow> x = ?d" for x
    using r(4) assms(3) by (simp_all add: drain_inv_def Let_def)
  obtain ls q where q: "run spec_step a ls (a\<lparr>s_queue := q, s_open := \<not> ended\<rparr>)"
    "queue_rel queued live (outbound w') (a\<lparr>s_queue := q, s_open := \<not> ended\<rparr>)" "live (outbound w') = (\<not> ended)"
    using drain_queue [OF assms(2) d(4) r(6)] by blast
  have keep: "is_cancelled tk u (tokens w') = is_cancelled tk u (tokens w)"
    if "u \<in> insert (conn_shutdown_token c) (snd ` set hs)" for u
  proof -
    have "descends (tokens w) u x \<longleftrightarrow> x = u \<or> x = conn_shutdown_token c" for x
      using that r(1) unfolding tokens_inv_def Let_def by (metis insert_iff)
    then have "\<not> descends (tokens w) u ?d"
      using that d(2,3) by blast
    then show ?thesis
      using shape by (simp add: cancel_token)
  qed
  then have "accepted_of (\<lambda>t. is_cancelled tk t (tokens w')) hs = accepted_of (\<lambda>t. is_cancelled tk t (tokens w)) hs"
    by (intro accepted_of_cong) simp
  then have "tokens_rel tk c (tokens w') hs (a\<lparr>s_queue := q, s_open := \<not> ended\<rparr>)"
    using r(3) keep by (simp add: tokens_rel_def)
  moreover have "drain_inv tk known descends live c (tokens w') (outbound w') hs"
    using d shape q(3) assms(3) by (simp add: drain_inv_def Let_def cancel_token)
  moreover have "filed c w' = filed c w"
    using shape by (intro filed_same) simp_all
  ultimately show ?thesis
    using rel_step [OF assms(1) Drain [OF assms(2,3)] q(1)] q(2) r(5) shape by (simp add: senders_rel_def)
qed

end

context tokio_runtime
begin

lemma conn_step_simulated:
  assumes "conn_step tk s s'" and "rel s a"
  shows "\<exists>ls a'. run spec_step a ls a' \<and> rel s' a'"
  using assms
proof (induction rule: conn_step.induct)
  case (Arrive c w hs es)
  then show ?case
    using sim_quiet [OF Arrive conn_step.Arrive sends_none] by simp
next
  case (Route c m w r c' w' hs)
  then show ?case
    using sim_route by blast
next
  case (Complete c i ok iq w hs)
  have "spec_step a (Retire i) (a\<lparr>s_pending := (s_pending a)(i := None)\<rparr>)"
    by (rule spec_step.retire)
  then show ?case
    using rel_step [OF Complete(2) conn_step.Complete [OF Complete(1)] run_single] relD [OF Complete(2)] Complete(1)
    by (auto simp: tokens_rel_def drain_inv_def senders_rel_def queue_rel_def incoming_complete_def split: if_splits)
next
  case (Cancel_in c i w ok w' hs)
  show ?case
  proof (cases "in_pending (incoming (conn_queue c)) i")
    case None
    then have "w' = w"
      using Cancel_in(1) by (simp add: cancel_incoming_def incoming_cancel_def)
    then show ?thesis
      using sim_quiet [OF Cancel_in(2) conn_step.Cancel_in [OF Cancel_in(1)]] by (simp add: sends_none)
  next
    case (Some t)
    then show ?thesis
      using sim_cancel [OF Cancel_in(2) conn_step.Cancel_in [OF Cancel_in(1)] Some] Cancel_in(1)
      by (simp add: cancel_incoming_def incoming_cancel_def)
  qed
next
  case (Register_out c i w h oq ow hs)
  obtain ow1 where o: "oneshot_channel tk (oneshots w) = (h, ow1)"
    "ow = (case filed c w (Inl i) of Some old \<Rightarrow> oneshot_drop tk old ow1 | None \<Rightarrow> ow1)"
    "out_pending oq = (out_pending (outgoing (conn_queue c)))(i \<mapsto> h)"
    using Register_out(1) by (auto simp: outgoing_register_def Let_def split: prod.splits)
  show ?case
    using sim_await [OF Register_out(2) conn_step.Register_out [OF Register_out(1)] o(1), of "Inl i"] o(2)
      filed_outgoing [OF o(3), of "w\<lparr>oneshots := ow\<rparr>" w]
    by (simp add: keeps_incoming_def)
next
  case (Cancel_out c i w r c' w' hs)
  then show ?case
    using sim_cancel_out by blast
next
  case (Send m w r w' c hs)
  then show ?case
    using sim_quiet [OF Send(2) conn_step.Send [OF Send(1)] conn_send_sends [OF Send(1) sends_none]] by simp
next
  case (Sender c w s c' w' hs)
  note shape = client_sender_shape [OF Sender(1)]
  have "conn_drain_alive c' = conn_drain_alive c"
    using Sender(1) by (auto simp: conn_client_sender_def Let_def split: option.splits prod.splits)
  then show ?case
    using shape relD(5) [OF Sender(2)]
    by (intro sim_skip [OF Sender(2) conn_step.Sender [OF Sender(1)]]) simp_all
next
  case (Client c m w hs x)
  then show ?case
    using sim_client by blast
next
  case (Start c w r c' w' hs)
  then show ?case
    using sim_quiet [OF Start(2) conn_step.Start [OF Start(1)] initialize_start_sends [OF Start(1)]] start_shape [OF Start(1)]
    by blast
next
  case (Finish c i v w r c' w' hs)
  then show ?case
    using sim_quiet [OF Finish(2) conn_step.Finish [OF Finish(1)] initialize_finish_sends [OF Finish(1)]]
      finish_shape [OF Finish(1)] by blast
next
  case (Request c i m p w r c' w' hs)
  then show ?case
    using sim_quiet [OF Request(2) conn_step.Request [OF Request(1)] send_request_sends [OF Request(1)]]
      send_request_shape [OF Request(1)] by blast
next
  case (Shutdown c i w r c' w' hs)
  then show ?case
    using sim_shutdown by blast
next
  case (Exit c x c' w hs)
  then show ?case
    using sim_quiet [OF Exit(2) conn_step.Exit [OF Exit(1)] sends_none] by (auto simp: handle_exit_def Let_def)
next
  case (Drain c gone rs w ms ended w' hs)
  then show ?case
    using sim_drain by blast
qed

lemma fresh_connection_rel:
  assumes "connection_new tk split framed_new io w = (c, w')"
  shows "rel (c, w', []) spec_init"
proof -
  obtain d tw1 st tw2 where t: "token_new tk (tokens w) = (d, tw1)" "token_new tk tw1 = (st, tw2)"
    by fastforce
  have out: "conn_shutdown_token c = st" "conn_drain_alive c = d" "tokens w' = tw2" "conn_queue c = request_queue_new"
    "conn_state c = Uninitialized" "conn_response_map c = None" "outbound w' = mpsc_channel tk"
    using assms t by (auto simp: connection_new_def from_transport_def spawn_drain_task_def lifecycle_default_def
        Let_def split: prod.splits)
  have n1: "d \<notin> known (tokens w)" "known tw1 = insert d (known (tokens w))" "\<not> is_cancelled tk d tw1"
    "\<And>u x. descends tw1 u x \<longleftrightarrow> descends (tokens w) u x \<or> u = d \<and> x = d"
    using new_token [OF t(1)] by blast+
  have n2: "st \<notin> known tw1" "known tw2 = insert st (known tw1)" "\<not> is_cancelled tk st tw2"
    "is_cancelled tk d tw2 = is_cancelled tk d tw1"
    "\<And>u x. descends tw2 u x \<longleftrightarrow> descends tw1 u x \<or> u = st \<and> x = st"
    using new_token [OF t(2)] n1(2) by blast+
  have "descends tw2 d x \<longleftrightarrow> x = d" for x
    using n1 n2 descends_known by blast
  then have "drain_inv tk known descends live c (tokens w') (outbound w') []"
    using out n1(1-3) n2(1-4) new_live by (auto simp: drain_inv_def Let_def)
  moreover have "filed c w' = Map.empty"
    using out(4,6) by (intro filed_eqI) (simp_all add: request_queue_new_def outgoing_new_def)
  ultimately show ?thesis
    using connection_new_inv [OF assms] out n2(3) spec_ok_init new_live new_queued
    by (simp add: conn_rel_def tokens_rel_def senders_rel_def queue_rel_def spec_init_def request_queue_new_def incoming_new_def)
qed

lemma conn_reach_rtranclp: "conn_reach tk s s' \<Longrightarrow> (conn_step tk)\<^sup>*\<^sup>* s s'"
  by (induction rule: conn_reach.induct) auto

end

sublocale tokio_runtime \<subseteq> refined: forward_simulation "conn_step tk" spec_step "conn_rel tk known descends opened queued live"
  by unfold_locales (rule conn_step_simulated)

context tokio_runtime
begin

lemma fresh_reach_related:
  assumes "connection_new tk split framed_new io w0 = (c0, w1)" and "conn_reach tk (c0, w1, []) s"
  shows "\<exists>ls a. run spec_step spec_init ls a \<and> rel s a"
  using refined.reach_simulated [OF conn_reach_rtranclp [OF assms(2)] fresh_connection_rel [OF assms(1)]] .

text \<open>A related state reaches only related states, and what the abstract machine never takes back stays.\<close>

lemma run_monotone:
  assumes "run spec_step a ls b" and "spec_ok a"
  shows "spec_monotone a b"
  using assms
proof (induction rule: run.induct)
  case (run_cons a l b ls c)
  then show ?case
    using spec_monotone_step spec_ok_step spec_monotone_trans by blast
qed (rule spec_monotone_refl)

lemma reach_monotone:
  assumes "conn_reach tk s s'" and "rel s a"
  shows "\<exists>b. spec_monotone a b \<and> rel s' b"
proof -
  obtain ls b where b: "run spec_step a ls b" "rel s' b"
    using refined.reach_simulated [OF conn_reach_rtranclp [OF assms(1)] assms(2)] by blast
  have "spec_ok a"
    using assms(2) by (cases s) (simp add: conn_rel_def)
  with b show ?thesis
    using run_monotone by blast
qed

end

subsection \<open>Properties\<close>

text \<open>
  C3. The connection refines its abstract specification: whatever calls, tasks and input have
  happened since it was created, there is a run of the abstract machine from its initial state to a
  state that the connection represents, in the lifecycle state, the requests handed out and their
  cancellation, the pending ids, the filed receivers and their outcomes, and the messages to be
  written.
\<close>

theorem connection_refines_spec:
  assumes "tokio_runtime tk known descends opened queued live"
    and "connection_new tk split framed_new io w0 = (c0, w1)" and "conn_reach tk (c0, w1, []) (c, w, hs)"
  shows "\<exists>acts a. run spec_step spec_init acts a \<and> spec_ok a
    \<and> s_state a = lifecycle_state c \<and> s_down a = is_cancelled tk (shutdown_token c) (tokens w)
    \<and> (\<forall>(i, t)\<in>set hs. s_accepted a t = Some (i, is_cancelled tk t (tokens w)))
    \<and> s_pending a = incoming_get_token (incoming (conn_queue c))
    \<and> s_filed a = filed c w \<and> (\<forall>h v. s_outcomes a h = Some v \<longrightarrow> oneshot_poll tk h (oneshots w) = v)
    \<and> s_open a = live (outbound w) \<and> (live (outbound w) \<longrightarrow> s_queue a = queued (outbound w))"
proof -
  obtain ls a where a: "run spec_step spec_init ls a" "conn_rel tk known descends opened queued live (c, w, hs) a"
    using tokio_runtime.fresh_reach_related [OF assms] by blast
  note r = tokio_runtime.relD [OF assms(1) a(2)]
  have "distinct (map snd hs)"
    using r(1) by (simp add: tokens_inv_def Let_def)
  then have "\<forall>(i, t)\<in>set hs. s_accepted a t = Some (i, is_cancelled tk t (tokens w))"
    using r(3) accepted_of_Some by (auto simp: tokens_rel_def)
  moreover have "spec_ok a"
    using a(2) by (simp add: conn_rel_def)
  ultimately show ?thesis
    using a(1) r(3,5,6)
    by (intro exI conjI)
      (auto simp: tokens_rel_def senders_rel_def queue_rel_def lifecycle_state_def shutdown_token_def incoming_get_token_def)
qed

theorem connection_refines_spec_witness:
  "\<exists>acts a. run spec_step spec_init acts a \<and> s_accepted a 3 = Some (IntegerId 1, False)
     \<and> s_pending a (IntegerId 1) = Some 3"
proof -
  from connection_refines_spec [OF ref_rt.tokio_runtime_axioms ref_new ref_reach] obtain acts a
    where "run spec_step spec_init acts a" "s_accepted a 3 = Some (IntegerId 1, is_cancelled ref_tokio 3 (tokens ref_world1))"
      "s_pending a = incoming_get_token (incoming (conn_queue ref_conn1))"
    by auto
  then have "run spec_step spec_init acts a \<and> s_accepted a 3 = Some (IntegerId 1, False) \<and> s_pending a (IntegerId 1) = Some 3"
    by (simp add: ref_tokio_simps ref_world1_def ref_conn1_def incoming_get_token_def)
  then show ?thesis
    by blast
qed

text \<open>
  C5. No waiting receiver is lost: from the moment a receiver is filed under an id, through every
  sequence of steps, either it still waits and its id still leads to it, or it is settled, no id
  leads to it, and what it holds never changes again.
\<close>

theorem no_waiter_is_lost:
  assumes "tokio_runtime tk known descends opened queued live"
    and "connection_new tk split framed_new io w0 = (c0, w1)" and "conn_reach tk (c0, w1, []) (c, w, hs)"
    and "filed c w k = Some h" and "conn_reach tk (c, w, hs) (c', w', hs')" and "conn_reach tk (c', w', hs') (c'', w'', hs'')"
  shows "(if oneshot_poll tk h (oneshots w') = Rx_waiting then filed c' w' k = Some h else h \<notin> ran (filed c' w'))
    \<and> (oneshot_poll tk h (oneshots w') \<noteq> Rx_waiting \<longrightarrow>
         oneshot_poll tk h (oneshots w'') = oneshot_poll tk h (oneshots w'))"
proof -
  note rt = assms(1)
  obtain a where a: "conn_rel tk known descends opened queued live (c, w, hs) a"
    using tokio_runtime.fresh_reach_related [OF assms(1-3)] by blast
  obtain b where b: "spec_monotone a b" "conn_rel tk known descends opened queued live (c', w', hs') b"
    using tokio_runtime.reach_monotone [OF rt assms(5) a] by blast
  obtain d where d: "spec_monotone b d" "conn_rel tk known descends opened queued live (c'', w'', hs'') d"
    using tokio_runtime.reach_monotone [OF rt assms(6) b(2)] by blast
  note ra = tokio_runtime.relD [OF rt a] and rb = tokio_runtime.relD [OF rt b(2)] and rd = tokio_runtime.relD [OF rt d(2)]
  have ok: "waiters_ok (s_filed a) (s_outcomes a)" "waiters_ok (s_filed b) (s_outcomes b)"
    using a b(2) by (simp_all add: conn_rel_def spec_ok_def)
  have filed: "s_filed a = filed c w" "s_filed b = filed c' w'"
    using ra(5) rb(5) by (simp_all add: senders_rel_def)
  have ha: "s_outcomes a h = Some Rx_waiting"
    using waiters_ok_filed [OF ok(1)] assms(4) filed by simp
  then obtain v where v: "s_outcomes b h = Some v"
    using b(1) unfolding spec_monotone_def by blast
  then have poll: "oneshot_poll tk h (oneshots w') = v"
    using rb(5) by (simp add: senders_rel_def)
  show ?thesis
  proof (cases "v = Rx_waiting")
    case True
    then obtain j where j: "s_filed b j = Some h"
      using waiters_ok_waiting [OF ok(2)] v by blast
    then have "s_filed a j = Some h"
      using b(1) ha unfolding spec_monotone_def by blast
    then have "j = k"
      using ok(1) assms(4) filed by (auto simp: waiters_ok_def inj_on_def dom_def)
    then show ?thesis
      using j poll True filed by simp
  next
    case False
    then have "h \<notin> ran (s_filed b)"
      using ok(2) v unfolding waiters_ok_def by (metis option.inject)
    moreover have "s_outcomes d h = Some v"
      using d(1) v False unfolding spec_monotone_def by blast
    then have "oneshot_poll tk h (oneshots w'') = v"
      using rd(5) by (simp add: senders_rel_def)
    ultimately show ?thesis
      using poll False filed by simp
  qed
qed

text \<open>A request registered in the outgoing tracker of the reference connection, and its response.\<close>

definition ref_ask :: connection where
  "ref_ask = ref_conn1\<lparr>conn_queue := (conn_queue ref_conn1)\<lparr>outgoing := \<lparr>out_pending = [IntegerId 5 \<mapsto> 0]\<rparr>\<rparr>\<rparr>"

definition ref_ask_world :: "(ref_tokens, oneshot_result list, message list \<times> bool) world" where
  "ref_ask_world = ref_world1\<lparr>oneshots := [Rx_waiting]\<rparr>"

lemma ref_ask_reach: "conn_reach ref_tokio (ref_conn, ref_conn_world, []) (ref_ask, ref_ask_world, [(IntegerId 1, 3)])"
proof -
  have "outgoing_register ref_tokio (outgoing (conn_queue ref_conn1)) (IntegerId 5) (oneshots ref_world1)
      = (0, \<lparr>out_pending = [IntegerId 5 \<mapsto> 0]\<rparr>, [Rx_waiting])"
    by (simp add: outgoing_register_def ref_tokio_simps ref_conn1_def ref_world1_def ref_conn_world_def ref_world_def
        request_queue_new_def outgoing_new_def)
  from reach_step [OF ref_reach Register_out [OF this]] show ?thesis
    by (simp add: ref_ask_def ref_ask_world_def)
qed

theorem no_waiter_is_lost_witness:
  "filed ref_ask ref_ask_world (Inl (IntegerId 5)) = Some 0
   \<and> 0 \<notin> ran (filed (fst (snd (route ref_tokio ref_ask (Response (response_ok (IntegerId 5) JNull)) ref_ask_world)))
       (snd (snd (route ref_tokio ref_ask (Response (response_ok (IntegerId 5) JNull)) ref_ask_world))))"
proof -
  let ?m = "Response (response_ok (IntegerId 5) JNull)"
  let ?c = "fst (snd (route ref_tokio ref_ask ?m ref_ask_world))" and ?w = "snd (snd (route ref_tokio ref_ask ?m ref_ask_world))"
  have filed: "filed ref_ask ref_ask_world (Inl (IntegerId 5)) = Some 0"
    by (simp add: ref_ask_def)
  have step: "conn_reach ref_tokio (ref_ask, ref_ask_world, [(IntegerId 1, 3)]) (?c, ?w, handed (fst (route ref_tokio ref_ask ?m ref_ask_world)) @ [(IntegerId 1, 3)])"
    by (rule reach_step [OF reach_refl Route [OF triple_collapse]])
  have "oneshots ?w = [Rx_value (response_ok (IntegerId 5) JNull)]"
    by (simp add: route_response_def route_outgoing_def outgoing_is_pending_def outgoing_complete_def ref_ask_def ref_ask_world_def
        ref_conn1_def ref_conn_def response_ok_def ref_tokio_simps ref_set_def ref_poll_def)
  then show ?thesis
    using no_waiter_is_lost [OF ref_rt.tokio_runtime_axioms ref_new ref_ask_reach filed step reach_refl] filed
    by (simp add: ref_tokio_simps ref_poll_def)
qed

text \<open>
  C19. The drain task and the outbound channel fail together and only then: in every reachable
  state the token of the drain task is cancelled exactly when sending fails. No shutdown and no
  cancellation of a request reaches that token.
\<close>

theorem send_fails_iff_drain_ended:
  assumes "tokio_runtime tk known descends opened queued live"
    and "connection_new tk split framed_new io w0 = (c0, w1)" and "conn_reach tk (c0, w1, []) (c, w, hs)"
  shows "is_cancelled tk (conn_drain_alive c) (tokens w)
    \<longleftrightarrow> fst (conn_send tk m w) = Inl (Io_error BrokenPipe (Io_text ''connection closed''))"
proof -
  note oc = tokio_runtime.axioms(3) [OF assms(1)]
  obtain a where a: "conn_rel tk known descends opened queued live (c, w, hs) a"
    using tokio_runtime.fresh_reach_related [OF assms] by blast
  have "is_cancelled tk (conn_drain_alive c) (tokens w) \<longleftrightarrow> \<not> live (outbound w)"
    using tokio_runtime.relD(4) [OF assms(1) a] by (simp add: drain_inv_def Let_def)
  moreover have "fst (mpsc_send tk m (outbound w)) \<longleftrightarrow> live (outbound w)"
    using outbound_sends.send_live [OF outbound_channel.axioms(1) [OF oc] _ prod.collapse [symmetric]]
      outbound_sends.send_dead [OF outbound_channel.axioms(1) [OF oc] _ prod.collapse [symmetric]] by blast
  ultimately show ?thesis
    by (auto simp: conn_send_def outbound_send_def closed_error_def split: prod.splits)
qed

theorem send_fails_iff_drain_ended_witness:
  "\<not> is_cancelled ref_tokio 1 (tokens ref_world1)"
  using send_fails_iff_drain_ended [OF ref_rt.tokio_runtime_axioms ref_new ref_reach, of "Request ref_init"]
  by (simp add: ref_conn1_def ref_conn_def conn_send_def outbound_send_def ref_tokio_simps ref_world1_def ref_conn_world_def)



end
