(* ===== verification/Test_Support.thy ===== *)
theory Test_Support
  imports Json_Text
begin

text \<open>
  The unit tests of the crate are translated to closed boolean terms over the model and evaluated:
  a check that the definitions behave on concrete inputs as the tests of the source say. A test
  whose \<open>unwrap\<close> would panic is false. This theory has what the tests share: assertions, the
  \<open>json!\<close> macro and the text functions of \<open>serde_json\<close>, instantiated by the reference reader and
  writer, and code equations that make the evaluation fast.

  Not translated are the tests that only check that something compiles or is cloned, copied or
  printed for debugging.
\<close>

subsection \<open>Assertions\<close>

definition ok_and :: "'e + 'a \<Rightarrow> ('a \<Rightarrow> bool) \<Rightarrow> bool" where
  "ok_and r p = (case r of Inl _ \<Rightarrow> False | Inr a \<Rightarrow> p a)"

definition err_and :: "'e + 'a \<Rightarrow> ('e \<Rightarrow> bool) \<Rightarrow> bool" where
  "err_and r p = (case r of Inl e \<Rightarrow> p e | Inr _ \<Rightarrow> False)"

definition some_and :: "'a option \<Rightarrow> ('a \<Rightarrow> bool) \<Rightarrow> bool" where
  "some_and x p = (case x of None \<Rightarrow> False | Some a \<Rightarrow> p a)"

definition is_some :: "'a option \<Rightarrow> bool" where
  "is_some x = some_and x (\<lambda>_. True)"

definition is_none :: "'a option \<Rightarrow> bool" where
  "is_none x = (\<not> is_some x)"

definition str_contains :: "string \<Rightarrow> string \<Rightarrow> bool" where
  "str_contains s p = is_some (find_subsequence s p)"

definition starts_with :: "string \<Rightarrow> string \<Rightarrow> bool" where
  "starts_with s p = (take (length p) s = p)"

subsection \<open>JSON\<close>

definition json_object :: "(string \<times> json) list \<Rightarrow> json" where
  "json_object es = JObject (btree_of es)"

definition json_int :: "int \<Rightarrow> json" where
  "json_int n = JNumber (if 0 \<le> n then PosInt (word_of_int n) else NegInt (word_of_int n))"

definition from_str :: "(json \<Rightarrow> serde_error + 'a) \<Rightarrow> string \<Rightarrow> serde_error + 'a" where
  "from_str deserialize s = res_bind (json_read s) deserialize"

text \<open>\<open>Value\<close> indexing, which gives \<open>Null\<close> for a missing key or element.\<close>

definition value_index :: "json \<Rightarrow> string \<Rightarrow> json" where
  "value_index v k = (case value_get v k of Some x \<Rightarrow> x | None \<Rightarrow> JNull)"

definition value_nth :: "json \<Rightarrow> nat \<Rightarrow> json" where
  "value_nth v i = (case v of JArray vs \<Rightarrow> if i < length vs then vs ! i else JNull | _ \<Rightarrow> JNull)"

definition int_id :: "i32 \<Rightarrow> request_id" where
  "int_id n = request_id_from_i32 n"

definition ok_null :: "i32 \<Rightarrow> response" where
  "ok_null n = response_ok (int_id n) JNull"

text \<open>The texts of the errors that the tests look at.\<close>

fun serde_error_display :: "serde_error \<Rightarrow> string" where
  "serde_error_display (Missing_field f) = ''missing field `'' @ f @ ''`''"
| "serde_error_display (Duplicate_field f) = ''duplicate field `'' @ f @ ''`''"
| "serde_error_display (Custom s) = s"
| "serde_error_display (Syntax s) = s"
| "serde_error_display (No_variant s) = s"
| "serde_error_display _ = []"

subsection \<open>Code equations\<close>

lemma windows_Cons: "0 < n \<Longrightarrow> n \<le> length (x # xs) \<Longrightarrow> windows n (x # xs) = take n (x # xs) # windows n xs"
proof -
  assume n: "0 < n" "n \<le> length (x # xs)"
  then have "[0..<Suc (length (x # xs)) - n] = 0 # map Suc [0..<Suc (length xs) - n]"
    by (simp add: map_Suc_upt upt_conv_Cons Suc_diff_le)
  then show ?thesis
    by (simp add: windows_def comp_def)
qed

lemma windows_short: "length xs < n \<Longrightarrow> windows n xs = []"
  by (simp add: windows_def)

lemma find_subsequence_code [code]:
  "find_subsequence xs p =
     (if p = [] then position (\<lambda>w. w = p) (windows (length p) xs)
      else if length xs < length p then None
      else if take (length p) xs = p then Some 0
      else map_option Suc (find_subsequence (tl xs) p))"
proof (cases "p = [] \<or> length xs < length p")
  case False
  then obtain x ys where "xs = x # ys"
    by (cases xs) auto
  with False show ?thesis
    by (auto simp: find_subsequence_def windows_Cons)
qed (auto simp: find_subsequence_def windows_short)

lemma usize_max_code [code]: "usize_max = 18446744073709551615"
  by (simp add: usize_max_def)

end
