(* ===== verification/Basic_Tests.thy ===== *)
theory Basic_Tests
  imports Test_Support Routing Lifecycle
begin

text \<open>
  The unit tests of \<open>src/src/request_id.rs\<close>, \<open>src/src/error.rs\<close>, \<open>src/src/routing.rs\<close> and
  \<open>src/src/lifecycle.rs\<close>.
\<close>

subsection \<open>Request identifiers\<close>

definition integer_serialization_roundtrip_test :: bool where
  "integer_serialization_roundtrip_test =
     (let i = IntegerId 42; json = json_text (request_id_serialize i)
      in json = ''42'' \<and> from_str request_id_deserialize json = Inr i)"

definition string_serialization_roundtrip_test :: bool where
  "string_serialization_roundtrip_test =
     (let i = StringId ''abc-123''; json = json_text (request_id_serialize i)
      in json = ''\"abc-123\"'' \<and> from_str request_id_deserialize json = Inr i)"

definition integer_deserialization_from_json_number_test :: bool where
  "integer_deserialization_from_json_number_test = (from_str request_id_deserialize ''42'' = Inr (IntegerId 42))"

definition string_deserialization_from_json_string_test :: bool where
  "string_deserialization_from_json_string_test = (from_str request_id_deserialize ''\"abc\"'' = Inr (StringId ''abc''))"

definition display_integer_test :: bool where
  "display_integer_test = (request_id_display (IntegerId 42) = ''42'')"

definition display_string_test :: bool where
  "display_string_test = (request_id_display (StringId ''abc-123'') = ''abc-123'')"

definition from_i32_test :: bool where
  "from_i32_test = (request_id_from_i32 42 = IntegerId 42)"

definition from_string_test :: bool where
  "from_string_test = (request_id_from_string ''abc'' = StringId ''abc'')"

definition from_str_test :: bool where
  "from_str_test = (request_id_from_str ''test'' = StringId ''test'')"

definition hash_works_for_hashmap_keys_test :: bool where
  "hash_works_for_hashmap_keys_test =
     (let m = Map.empty(IntegerId 1 \<mapsto> ''first'', StringId ''abc'' \<mapsto> ''second'')
      in m (IntegerId 1) = Some ''first'' \<and> m (StringId ''abc'') = Some ''second'')"

definition integer_and_string_with_same_value_are_not_equal_test :: bool where
  "integer_and_string_with_same_value_are_not_equal_test = (IntegerId 1 \<noteq> StringId ''1'')"

lemma request_id_tests_pass:
  "list_all id
     [integer_serialization_roundtrip_test, string_serialization_roundtrip_test,
      integer_deserialization_from_json_number_test, string_deserialization_from_json_string_test,
      display_integer_test, display_string_test, from_i32_test, from_string_test, from_str_test,
      hash_works_for_hashmap_keys_test, integer_and_string_with_same_value_are_not_equal_test]"
  by code_simp

subsection \<open>Errors\<close>

definition error_code_to_i32_test :: bool where
  "error_code_to_i32_test =
     (error_code_to_i32 ParseError = -32700 \<and> error_code_to_i32 InvalidRequest = -32600
      \<and> error_code_to_i32 MethodNotFound = -32601 \<and> error_code_to_i32 InvalidParams = -32602
      \<and> error_code_to_i32 InternalError = -32603 \<and> error_code_to_i32 ServerNotInitialized = -32002
      \<and> error_code_to_i32 UnknownErrorCode = -32001 \<and> error_code_to_i32 RequestFailed = -32803
      \<and> error_code_to_i32 ServerCancelled = -32802 \<and> error_code_to_i32 ContentModified = -32801
      \<and> error_code_to_i32 RequestCancelled = -32800)"

definition i32_to_error_code_test :: bool where
  "i32_to_error_code_test =
     (error_code_try_from (-32700) = Inr ParseError \<and> error_code_try_from (-32601) = Inr MethodNotFound
      \<and> error_code_try_from (-32800) = Inr RequestCancelled \<and> error_code_try_from (-99999) = Inl (-99999))"

definition response_error_construction_test :: bool where
  "response_error_construction_test =
     (let e = response_error_new MethodNotFound ''Method not found''
      in err_code e = -32601 \<and> err_message e = ''Method not found'' \<and> is_none (err_data e))"

definition response_error_with_data_test :: bool where
  "response_error_with_data_test =
     (let e = response_error_with_data (response_error_new InvalidParams ''Invalid params'')
            (json_object [(''field'', JString ''uri'')])
      in err_code e = -32602 \<and> some_and (err_data e) (\<lambda>d. value_index d ''field'' = JString ''uri''))"

definition response_error_serialization_without_data_test :: bool where
  "response_error_serialization_without_data_test =
     (let json = json_text (response_error_serialize (response_error_new ParseError ''Parse error''))
      in \<not> str_contains json ''data'' \<and> str_contains json ''-32700'' \<and> str_contains json ''Parse error'')"

definition response_error_serialization_with_data_test :: bool where
  "response_error_serialization_with_data_test =
     (let json = json_text (response_error_serialize (response_error_with_data
            (response_error_new InvalidParams ''Missing field'') (json_object [(''missing'', JString ''uri'')])))
      in str_contains json ''data'' \<and> str_contains json ''missing'')"

definition response_error_deserialization_test :: bool where
  "response_error_deserialization_test =
     ok_and (from_str response_error_deserialize ''{\"code\":-32601,\"message\":\"Method not found\"}'') (\<lambda>e.
       err_code e = -32601 \<and> err_message e = ''Method not found'' \<and> is_none (err_data e))"

definition response_error_deserialization_with_data_test :: bool where
  "response_error_deserialization_with_data_test =
     ok_and (from_str response_error_deserialize
         ''{\"code\":-32602,\"message\":\"Invalid\",\"data\":{\"field\":\"uri\"}}'') (\<lambda>e.
       err_code e = -32602 \<and> is_some (err_data e))"

definition response_error_raw_code_test :: bool where
  "response_error_raw_code_test =
     (let e = response_error_new_raw (-99999) ''Custom error''
      in err_code e = -99999 \<and> is_none (response_error_code e))"

definition skip_serializing_if_works_test :: bool where
  "skip_serializing_if_works_test =
     some_and (as_object (to_value (response_error_serialize (response_error_new InternalError ''Error''))))
       (\<lambda>obj. is_none (map_of obj ''data''))"

lemma error_code_tests_pass: "list_all id [error_code_to_i32_test, i32_to_error_code_test]"
  by (simp add: error_code_to_i32_test_def i32_to_error_code_test_def error_code_try_from_def)

lemma error_tests_pass:
  "list_all id
     [response_error_construction_test,
      response_error_with_data_test, response_error_serialization_without_data_test,
      response_error_serialization_with_data_test, response_error_deserialization_test,
      response_error_deserialization_with_data_test, response_error_raw_code_test,
      skip_serializing_if_works_test]"
  by code_simp

subsection \<open>Routing\<close>

definition method_not_found_response_creates_correct_error_test :: bool where
  "method_not_found_response_creates_correct_error_test =
     (let r = method_not_found_response (request_new (IntegerId 42) ''textDocument/unknown''
            (Some (json_object [(''key'', JString ''value'')])))
      in is_some (response_error_of r) \<and> is_none (response_result r) \<and> resp_id r = Some (IntegerId 42)
         \<and> some_and (response_into_error r) (\<lambda>e. err_code e = error_code_to_i32 MethodNotFound \<and> err_code e = -32601))"

definition method_not_found_response_includes_method_name_test :: bool where
  "method_not_found_response_includes_method_name_test =
     some_and (response_into_error (method_not_found_response (request_new (IntegerId 1) ''custom/myMethod'' None))) (\<lambda>e.
       str_contains (err_message e) ''custom/myMethod'' \<and> err_message e = ''Method not found: custom/myMethod'')"

definition method_not_found_response_with_string_id_test :: bool where
  "method_not_found_response_with_string_id_test =
     (resp_id (method_not_found_response (request_new (StringId ''request-abc-123'') ''test/method'' None))
      = Some (StringId ''request-abc-123''))"

definition incoming_message_accessors_match_variants_test :: bool where
  "incoming_message_accessors_match_variants_test =
     (let request = IncomingRequest (request_new (IntegerId 1) ''test'' None) 0;
          notification = IncomingNotification (notification_new ''test'' None);
          unknown = ResponseUnknown (response_ok (IntegerId 1) JNull)
      in incoming_is_request request \<and> \<not> incoming_is_notification request \<and> \<not> is_response_routed request
         \<and> \<not> is_response_unknown request \<and> \<not> is_cancel_handled request
         \<and> incoming_is_notification notification \<and> is_response_routed ResponseRouted
         \<and> is_response_unknown unknown \<and> is_cancel_handled CancelHandled)"

definition cancelled_response_creates_correct_error_test :: bool where
  "cancelled_response_creates_correct_error_test =
     (let r = cancelled_response (IntegerId 42)
      in is_some (response_error_of r) \<and> is_none (response_result r) \<and> resp_id r = Some (IntegerId 42)
         \<and> some_and (response_into_error r) (\<lambda>e. err_code e = error_code_to_i32 RequestCancelled \<and> err_code e = -32800
              \<and> str_contains (err_message e) ''cancelled''))"

definition cancelled_response_with_string_id_test :: bool where
  "cancelled_response_with_string_id_test =
     (let r = cancelled_response (StringId ''req-xyz'')
      in resp_id r = Some (StringId ''req-xyz'') \<and> is_some (response_error_of r))"

lemma routing_tests_pass:
  "list_all id
     [method_not_found_response_creates_correct_error_test,
      method_not_found_response_includes_method_name_test, method_not_found_response_with_string_id_test,
      incoming_message_accessors_match_variants_test, cancelled_response_creates_correct_error_test,
      cancelled_response_with_string_id_test]"
  by code_simp

subsection \<open>The lifecycle\<close>

definition lifecycle_state_default_is_uninitialized_test :: bool where
  "lifecycle_state_default_is_uninitialized_test = (lifecycle_default = Uninitialized)"

definition uninitialized_allows_only_initialize_request_test :: bool where
  "uninitialized_allows_only_initialize_request_test =
     (is_request_allowed Uninitialized ''initialize'' \<and> \<not> is_request_allowed Uninitialized ''shutdown''
      \<and> \<not> is_request_allowed Uninitialized ''textDocument/hover'' \<and> \<not> is_request_allowed Uninitialized ''workspace/symbol'')"

definition initializing_allows_no_requests_test :: bool where
  "initializing_allows_no_requests_test =
     (\<not> is_request_allowed Initializing ''initialize'' \<and> \<not> is_request_allowed Initializing ''shutdown''
      \<and> \<not> is_request_allowed Initializing ''textDocument/hover'')"

definition running_allows_all_requests_except_initialize_test :: bool where
  "running_allows_all_requests_except_initialize_test =
     (\<not> is_request_allowed Running ''initialize'' \<and> is_request_allowed Running ''shutdown''
      \<and> is_request_allowed Running ''textDocument/hover'' \<and> is_request_allowed Running ''textDocument/completion''
      \<and> is_request_allowed Running ''workspace/symbol'')"

definition shutting_down_allows_no_requests_test :: bool where
  "shutting_down_allows_no_requests_test =
     (\<not> is_request_allowed ShuttingDown ''initialize'' \<and> \<not> is_request_allowed ShuttingDown ''shutdown''
      \<and> \<not> is_request_allowed ShuttingDown ''textDocument/hover'')"

definition exited_allows_no_requests_test :: bool where
  "exited_allows_no_requests_test =
     (\<not> is_request_allowed Exited ''initialize'' \<and> \<not> is_request_allowed Exited ''shutdown''
      \<and> \<not> is_request_allowed Exited ''textDocument/hover'')"

definition uninitialized_allows_only_exit_notification_test :: bool where
  "uninitialized_allows_only_exit_notification_test =
     (is_notification_allowed Uninitialized ''exit'' \<and> \<not> is_notification_allowed Uninitialized ''initialized''
      \<and> \<not> is_notification_allowed Uninitialized ''textDocument/didOpen'')"

definition initializing_allows_only_initialized_notification_test :: bool where
  "initializing_allows_only_initialized_notification_test =
     (is_notification_allowed Initializing ''initialized'' \<and> \<not> is_notification_allowed Initializing ''exit''
      \<and> \<not> is_notification_allowed Initializing ''textDocument/didOpen'')"

definition running_allows_all_notifications_test :: bool where
  "running_allows_all_notifications_test =
     (is_notification_allowed Running ''exit'' \<and> is_notification_allowed Running ''initialized''
      \<and> is_notification_allowed Running ''textDocument/didOpen'' \<and> is_notification_allowed Running ''textDocument/didChange''
      \<and> is_notification_allowed Running ''$/cancelRequest'')"

definition shutting_down_allows_only_exit_notification_test :: bool where
  "shutting_down_allows_only_exit_notification_test =
     (is_notification_allowed ShuttingDown ''exit'' \<and> \<not> is_notification_allowed ShuttingDown ''initialized''
      \<and> \<not> is_notification_allowed ShuttingDown ''textDocument/didOpen'')"

definition exited_allows_no_notifications_test :: bool where
  "exited_allows_no_notifications_test =
     (\<not> is_notification_allowed Exited ''exit'' \<and> \<not> is_notification_allowed Exited ''initialized''
      \<and> \<not> is_notification_allowed Exited ''textDocument/didOpen'')"

definition exit_code_success_is_zero_test :: bool where
  "exit_code_success_is_zero_test = (exit_code_to_i32 ExitSuccess = 0)"

definition exit_code_error_is_one_test :: bool where
  "exit_code_error_is_one_test = (exit_code_to_i32 ExitError = 1)"

text \<open>The text of an I/O error made from a message is the message.\<close>

definition io_error_display :: "io_error \<Rightarrow> string" where
  "io_error_display e = (case e of Io_error k (Io_text s) \<Rightarrow> s | _ \<Rightarrow> [])"

abbreviation show_protocol_error :: "protocol_error \<Rightarrow> string" where
  "show_protocol_error \<equiv> protocol_error_display io_error_display"

definition protocol_error_expected_initialize_message_test :: bool where
  "protocol_error_expected_initialize_message_test =
     (let msg = show_protocol_error (ExpectedInitialize ''textDocument/hover'')
      in str_contains msg ''expected initialize request'' \<and> str_contains msg ''textDocument/hover'')"

definition protocol_error_expected_initialized_message_test :: bool where
  "protocol_error_expected_initialized_message_test =
     (let msg = show_protocol_error (ExpectedInitialized ''textDocument/didOpen'')
      in str_contains msg ''expected initialized notification'' \<and> str_contains msg ''textDocument/didOpen'')"

definition protocol_error_disconnected_message_test :: bool where
  "protocol_error_disconnected_message_test =
     str_contains (show_protocol_error Disconnected) ''disconnected unexpectedly''"

definition protocol_error_after_shutdown_message_test :: bool where
  "protocol_error_after_shutdown_message_test =
     (let msg = show_protocol_error (AfterShutdown ''textDocument/hover'')
      in str_contains msg ''after shutdown'' \<and> str_contains msg ''textDocument/hover'')"

definition protocol_error_request_timeout_message_test :: bool where
  "protocol_error_request_timeout_message_test =
     str_contains (show_protocol_error RequestTimeout) ''timed out waiting for response to server request''"

definition protocol_error_initialize_timeout_message_test :: bool where
  "protocol_error_initialize_timeout_message_test =
     (let msg = show_protocol_error InitializeTimeout
      in str_contains msg ''timed out waiting for initialized notification'' \<and> str_contains msg ''60s'')"

definition protocol_error_io_conversion_test :: bool where
  "protocol_error_io_conversion_test =
     (let msg = show_protocol_error (Io (Io_error BrokenPipe (Io_text ''connection lost'')))
      in str_contains msg ''I/O error'' \<and> str_contains msg ''connection lost'')"

lemma lifecycle_tests_pass:
  "list_all id
     [lifecycle_state_default_is_uninitialized_test, uninitialized_allows_only_initialize_request_test,
      initializing_allows_no_requests_test, running_allows_all_requests_except_initialize_test,
      shutting_down_allows_no_requests_test, exited_allows_no_requests_test,
      uninitialized_allows_only_exit_notification_test, initializing_allows_only_initialized_notification_test,
      running_allows_all_notifications_test, shutting_down_allows_only_exit_notification_test,
      exited_allows_no_notifications_test, exit_code_success_is_zero_test, exit_code_error_is_one_test,
      protocol_error_expected_initialize_message_test, protocol_error_expected_initialized_message_test,
      protocol_error_disconnected_message_test, protocol_error_after_shutdown_message_test,
      protocol_error_request_timeout_message_test, protocol_error_initialize_timeout_message_test,
      protocol_error_io_conversion_test]"
  by code_simp

end
