(* ===== verification/Message_Tests.thy ===== *)
theory Message_Tests
  imports Test_Support
begin

text \<open>The unit tests of \<open>src/src/message.rs\<close>.\<close>

abbreviation request_text :: "request \<Rightarrow> string" where
  "request_text r \<equiv> json_text (request_serialize r)"

abbreviation response_text :: "response \<Rightarrow> string" where
  "response_text r \<equiv> json_text (response_serialize r)"

abbreviation notification_text :: "notification \<Rightarrow> string" where
  "notification_text n \<equiv> json_text (notification_serialize n)"

abbreviation version_text :: string where
  "version_text \<equiv> ''\"jsonrpc\":\"2.0\"''"

abbreviation document_params :: json where
  "document_params \<equiv> json_object [(''textDocument'', json_object [(''uri'', JString ''file:///test.rs'')])]"

subsection \<open>Requests\<close>

definition request_roundtrip_test :: bool where
  "request_roundtrip_test =
     (let json = request_text (request_new (IntegerId 1) ''test/method'' None)
      in ok_and (from_str request_deserialize json) (\<lambda>parsed.
           str_contains json version_text \<and> req_id parsed = IntegerId 1 \<and> req_method parsed = ''test/method''
           \<and> is_none (req_params parsed)))"

definition request_with_params_roundtrip_test :: bool where
  "request_with_params_roundtrip_test =
     (let json = request_text (request_new (IntegerId 42) ''textDocument/completion'' (Some document_params))
      in ok_and (from_str request_deserialize json) (\<lambda>parsed.
           req_id parsed = IntegerId 42 \<and> req_method parsed = ''textDocument/completion''
           \<and> req_params parsed = Some document_params))"

definition request_without_params_omits_field_test :: bool where
  "request_without_params_omits_field_test =
     (\<not> str_contains (request_text (request_new (IntegerId 1) ''test'' None)) ''params'')"

definition request_with_string_id_test :: bool where
  "request_with_string_id_test =
     (let json = request_text (request_new (StringId ''abc-123'') ''test'' None)
      in str_contains json ''\"abc-123\"''
         \<and> ok_and (from_str request_deserialize json) (\<lambda>parsed. req_id parsed = StringId ''abc-123''))"

definition request_deserialization_rejects_missing_jsonrpc_test :: bool where
  "request_deserialization_rejects_missing_jsonrpc_test =
     err_and (from_str request_deserialize ''{\"id\":1,\"method\":\"test\"}'') (\<lambda>e.
       str_contains (serde_error_display e) ''missing field `jsonrpc`'')"

definition request_deserialization_rejects_wrong_jsonrpc_version_test :: bool where
  "request_deserialization_rejects_wrong_jsonrpc_version_test =
     err_and (from_str request_deserialize ''{\"jsonrpc\":\"1.0\",\"id\":1,\"method\":\"test\"}'') (\<lambda>e.
       str_contains (serde_error_display e) ''expected jsonrpc field to equal \"2.0\"'')"

lemma request_tests_pass:
  "list_all id
     [request_roundtrip_test, request_with_params_roundtrip_test, request_without_params_omits_field_test,
      request_with_string_id_test, request_deserialization_rejects_missing_jsonrpc_test,
      request_deserialization_rejects_wrong_jsonrpc_version_test]"
  by code_simp

subsection \<open>Responses\<close>

definition response_ok_roundtrip_test :: bool where
  "response_ok_roundtrip_test =
     (let result = json_object [(''items'', JArray []), (''isIncomplete'', JBool False)];
          json = response_text (response_ok (IntegerId 1) result)
      in ok_and (from_str response_deserialize json) (\<lambda>parsed.
           str_contains json version_text \<and> resp_id parsed = Some (IntegerId 1) \<and> is_none (response_error_of parsed)
           \<and> response_into_result parsed = Some result))"

definition response_serialization_hardcodes_jsonrpc_version_test :: bool where
  "response_serialization_hardcodes_jsonrpc_version_test =
     str_contains (response_text (response_ok (IntegerId 1) JNull)) version_text"

definition response_deserialization_rejects_missing_jsonrpc_test :: bool where
  "response_deserialization_rejects_missing_jsonrpc_test =
     err_and (from_str response_deserialize ''{\"id\":1,\"result\":null}'') (\<lambda>e.
       str_contains (serde_error_display e) ''missing jsonrpc field'')"

definition response_err_roundtrip_test :: bool where
  "response_err_roundtrip_test =
     ok_and (from_str response_deserialize (response_text (response_err (IntegerId 1)
         (response_error_new MethodNotFound ''Method not found'')))) (\<lambda>parsed.
       resp_id parsed = Some (IntegerId 1) \<and> is_none (response_result parsed)
       \<and> some_and (response_into_error parsed) (\<lambda>e. err_code e = -32601 \<and> err_message e = ''Method not found''))"

definition response_parse_error_has_null_id_test :: bool where
  "response_parse_error_has_null_id_test =
     (let json = response_text (response_parse_error (response_error_new ParseError ''Parse error''))
      in str_contains json ''\"id\":null''
         \<and> ok_and (from_str response_deserialize json) (\<lambda>parsed.
              is_none (resp_id parsed) \<and> is_some (response_error_of parsed)))"

definition response_with_string_id_test :: bool where
  "response_with_string_id_test =
     ok_and (from_str response_deserialize (response_text (response_ok (StringId ''uuid-123'') JNull))) (\<lambda>parsed.
       resp_id parsed = Some (StringId ''uuid-123''))"

definition response_ok_omits_error_field_test :: bool where
  "response_ok_omits_error_field_test = (\<not> str_contains (response_text (response_ok (IntegerId 1) JNull)) ''error'')"

definition response_err_omits_result_field_test :: bool where
  "response_err_omits_result_field_test =
     (\<not> str_contains (response_text (response_err (IntegerId 1) (response_error_new InternalError ''Error''))) ''result'')"

lemma response_tests_pass:
  "list_all id
     [response_ok_roundtrip_test, response_serialization_hardcodes_jsonrpc_version_test,
      response_deserialization_rejects_missing_jsonrpc_test, response_err_roundtrip_test,
      response_parse_error_has_null_id_test, response_with_string_id_test, response_ok_omits_error_field_test,
      response_err_omits_result_field_test]"
  by code_simp

subsection \<open>Notifications\<close>

definition notification_roundtrip_test :: bool where
  "notification_roundtrip_test =
     (let json = notification_text (notification_new ''textDocument/didOpen'' None)
      in ok_and (from_str notification_deserialize json) (\<lambda>parsed.
           str_contains json version_text \<and> notif_method parsed = ''textDocument/didOpen'' \<and> is_none (notif_params parsed)))"

definition notification_with_params_roundtrip_test :: bool where
  "notification_with_params_roundtrip_test =
     ok_and (from_str notification_deserialize (notification_text
         (notification_new ''textDocument/didOpen'' (Some document_params)))) (\<lambda>parsed.
       notif_method parsed = ''textDocument/didOpen'' \<and> notif_params parsed = Some document_params)"

definition notification_deserialization_rejects_wrong_jsonrpc_version_test :: bool where
  "notification_deserialization_rejects_wrong_jsonrpc_version_test =
     err_and (from_str notification_deserialize ''{\"jsonrpc\":\"1.0\",\"method\":\"test\"}'') (\<lambda>e.
       str_contains (serde_error_display e) ''expected jsonrpc field to equal \"2.0\"'')"

definition notification_without_params_omits_field_test :: bool where
  "notification_without_params_omits_field_test =
     (\<not> str_contains (notification_text (notification_new ''test'' None)) ''params'')"

lemma notification_tests_pass:
  "list_all id
     [notification_roundtrip_test, notification_with_params_roundtrip_test,
      notification_deserialization_rejects_wrong_jsonrpc_version_test, notification_without_params_omits_field_test]"
  by code_simp

subsection \<open>Discrimination\<close>

abbreviation read_message :: "string \<Rightarrow> serde_error + message" where
  "read_message \<equiv> from_str message_deserialize"

definition message_discriminates_request_test :: bool where
  "message_discriminates_request_test =
     ok_and (read_message ''{\"jsonrpc\":\"2.0\",\"id\":1,\"method\":\"test\"}'') (\<lambda>msg.
       is_request msg \<and> \<not> is_response msg \<and> \<not> is_notification msg
       \<and> (case msg of Request req \<Rightarrow> req_id req = IntegerId 1 \<and> req_method req = ''test'' | _ \<Rightarrow> False))"

definition message_discriminates_request_with_params_test :: bool where
  "message_discriminates_request_with_params_test =
     ok_and (read_message ''{\"jsonrpc\":\"2.0\",\"id\":1,\"method\":\"test\",\"params\":{\"key\":\"value\"}}'') (\<lambda>msg.
       is_request msg \<and> (case msg of Request req \<Rightarrow> is_some (req_params req) | _ \<Rightarrow> False))"

definition message_discriminates_response_ok_test :: bool where
  "message_discriminates_response_ok_test =
     ok_and (read_message ''{\"jsonrpc\":\"2.0\",\"id\":1,\"result\":null}'') (\<lambda>msg.
       is_response msg \<and> \<not> is_request msg \<and> \<not> is_notification msg
       \<and> (case msg of
            Response resp \<Rightarrow> resp_id resp = Some (IntegerId 1) \<and> is_some (response_result resp) \<and> is_none (response_error_of resp)
          | _ \<Rightarrow> False))"

definition message_discriminates_response_err_test :: bool where
  "message_discriminates_response_err_test =
     ok_and (read_message ''{\"jsonrpc\":\"2.0\",\"id\":1,\"error\":{\"code\":-32600,\"message\":\"Invalid Request\"}}'') (\<lambda>msg.
       is_response msg
       \<and> (case msg of
            Response resp \<Rightarrow> resp_id resp = Some (IntegerId 1) \<and> is_none (response_result resp)
              \<and> some_and (response_into_error resp) (\<lambda>e. err_code e = -32600)
          | _ \<Rightarrow> False))"

definition message_discriminates_notification_test :: bool where
  "message_discriminates_notification_test =
     ok_and (read_message ''{\"jsonrpc\":\"2.0\",\"method\":\"test\"}'') (\<lambda>msg.
       is_notification msg \<and> \<not> is_request msg \<and> \<not> is_response msg
       \<and> (case msg of Notification notif \<Rightarrow> notif_method notif = ''test'' | _ \<Rightarrow> False))"

definition message_discriminates_notification_with_params_test :: bool where
  "message_discriminates_notification_with_params_test =
     ok_and (read_message ''{\"jsonrpc\":\"2.0\",\"method\":\"test\",\"params\":{\"key\":\"value\"}}'') (\<lambda>msg.
       is_notification msg \<and> (case msg of Notification notif \<Rightarrow> is_some (notif_params notif) | _ \<Rightarrow> False))"

definition request_with_string_id_discrimination_test :: bool where
  "request_with_string_id_discrimination_test =
     ok_and (read_message ''{\"jsonrpc\":\"2.0\",\"id\":\"abc-123\",\"method\":\"test\"}'') (\<lambda>msg.
       is_request msg \<and> (case msg of Request req \<Rightarrow> req_id req = StringId ''abc-123'' | _ \<Rightarrow> False))"

definition response_with_null_id_discrimination_test :: bool where
  "response_with_null_id_discrimination_test =
     ok_and (read_message ''{\"jsonrpc\":\"2.0\",\"error\":{\"code\":-32700,\"message\":\"Parse error\"}}'') (\<lambda>msg.
       is_response msg
       \<and> (case msg of Response resp \<Rightarrow> is_none (resp_id resp) \<and> is_some (response_error_of resp) | _ \<Rightarrow> False))"

definition response_with_explicit_null_id_test :: bool where
  "response_with_explicit_null_id_test =
     ok_and (from_str response_deserialize
         ''{\"jsonrpc\":\"2.0\",\"id\":null,\"error\":{\"code\":-32700,\"message\":\"Parse error\"}}'') (\<lambda>parsed.
       is_none (resp_id parsed))"

lemma discrimination_tests_pass:
  "list_all id
     [message_discriminates_request_test, message_discriminates_request_with_params_test,
      message_discriminates_response_ok_test, message_discriminates_response_err_test,
      message_discriminates_notification_test, message_discriminates_notification_with_params_test,
      request_with_string_id_discrimination_test, response_with_null_id_discrimination_test,
      response_with_explicit_null_id_test]"
  by code_simp

subsection \<open>Messages there and back\<close>

abbreviation message_text :: "message \<Rightarrow> string" where
  "message_text m \<equiv> json_text (message_serialize m)"

definition message_roundtrip_request_test :: bool where
  "message_roundtrip_request_test =
     ok_and (read_message (message_text (Request (request_new (IntegerId 42) ''textDocument/hover''
       (Some (json_object [(''position'', json_object [(''line'', json_int 0)])])))))) is_request"

definition message_roundtrip_response_test :: bool where
  "message_roundtrip_response_test =
     ok_and (read_message (message_text (Response (response_ok (IntegerId 42)
       (json_object [(''contents'', JString ''documentation'')]))))) is_response"

definition message_roundtrip_notification_test :: bool where
  "message_roundtrip_notification_test =
     ok_and (read_message (message_text (Notification (notification_new ''$/cancelRequest''
       (Some (json_object [(''id'', json_int 42)])))))) is_notification"

definition response_with_complex_result_test :: bool where
  "response_with_complex_result_test =
     (let result = json_object [(''capabilities'', json_object
            [(''textDocumentSync'', json_int 1),
             (''completionProvider'', json_object [(''triggerCharacters'', JArray [JString ''.'', JString '':''])]),
             (''hoverProvider'', JBool True)])]
      in ok_and (from_str response_deserialize (response_text (response_ok (IntegerId 0) result))) (\<lambda>parsed.
           response_into_result parsed = Some result))"

definition response_error_with_data_test :: bool where
  "response_error_with_data_test =
     ok_and (from_str response_deserialize (response_text (response_err (IntegerId 1) (response_error_with_data
         (response_error_new InvalidParams ''Missing field'')
         (json_object [(''missing'', JArray [JString ''uri'', JString ''position''])]))))) (\<lambda>parsed.
       some_and (response_into_error parsed) (\<lambda>e.
         some_and (err_data e) (\<lambda>d. value_nth (value_index d ''missing'') 0 = JString ''uri'')))"

definition response_both_result_and_error_prefers_error_test :: bool where
  "response_both_result_and_error_prefers_error_test =
     ok_and (from_str response_deserialize
         ''{\"jsonrpc\":\"2.0\",\"id\":1,\"result\":\"ok\",\"error\":{\"code\":-32600,\"message\":\"bad\"}}'') (\<lambda>resp.
       some_and (response_error_of resp) (\<lambda>e. err_code e = -32600))"

definition response_error_null_with_result_treats_as_success_test :: bool where
  "response_error_null_with_result_treats_as_success_test =
     ok_and (from_str response_deserialize ''{\"jsonrpc\":\"2.0\",\"id\":1,\"result\":\"ok\",\"error\":null}'') (\<lambda>resp.
       response_result resp = Some (JString ''ok''))"

definition response_neither_result_nor_error_rejected_test :: bool where
  "response_neither_result_nor_error_rejected_test =
     err_and (from_str response_deserialize ''{\"jsonrpc\":\"2.0\",\"id\":1}'') (\<lambda>e.
       str_contains (serde_error_display e) ''result'')"

definition response_error_null_without_result_rejected_test :: bool where
  "response_error_null_without_result_rejected_test =
     err_and (from_str response_deserialize ''{\"jsonrpc\":\"2.0\",\"id\":1,\"error\":null}'') (\<lambda>e.
       str_contains (serde_error_display e) ''null'')"

definition response_result_null_is_valid_success_test :: bool where
  "response_result_null_is_valid_success_test =
     ok_and (from_str response_deserialize ''{\"jsonrpc\":\"2.0\",\"id\":1,\"result\":null}'') (\<lambda>resp.
       response_result resp = Some JNull)"

lemma roundtrip_tests_pass:
  "list_all id
     [message_roundtrip_request_test, message_roundtrip_response_test, message_roundtrip_notification_test,
      response_with_complex_result_test, response_error_with_data_test,
      response_both_result_and_error_prefers_error_test, response_error_null_with_result_treats_as_success_test,
      response_neither_result_nor_error_rejected_test, response_error_null_without_result_rejected_test,
      response_result_null_is_valid_success_test]"
  by code_simp

subsection \<open>Conversions and accessors\<close>

abbreviation test_request :: request where
  "test_request \<equiv> request_new (IntegerId 1) ''test'' None"

abbreviation test_response :: response where
  "test_response \<equiv> response_ok (IntegerId 1) JNull"

abbreviation test_notification :: notification where
  "test_notification \<equiv> notification_new ''test'' None"

definition from_request_for_message_test :: bool where
  "from_request_for_message_test = is_request (message_from_request test_request)"

definition from_response_for_message_test :: bool where
  "from_response_for_message_test = is_response (message_from_response test_response)"

definition from_notification_for_message_test :: bool where
  "from_notification_for_message_test = is_notification (message_from_notification test_notification)"

definition message_as_request_test :: bool where
  "message_as_request_test =
     (let msg = Request test_request
      in some_and (as_request msg) (\<lambda>r. req_method r = ''test'') \<and> is_none (as_response msg) \<and> is_none (as_notification msg))"

definition message_as_response_test :: bool where
  "message_as_response_test =
     (let msg = Response test_response
      in some_and (as_response msg) response_is_ok \<and> is_none (as_request msg) \<and> is_none (as_notification msg))"

definition message_as_notification_test :: bool where
  "message_as_notification_test =
     (let msg = Notification test_notification
      in some_and (as_notification msg) (\<lambda>n. notif_method n = ''test'') \<and> is_none (as_request msg) \<and> is_none (as_response msg))"

definition message_into_request_test :: bool where
  "message_into_request_test = some_and (into_request (Request test_request)) (\<lambda>r. req_method r = ''test'')"

definition message_into_response_test :: bool where
  "message_into_response_test = some_and (into_response (Response test_response)) response_is_ok"

definition message_into_notification_test :: bool where
  "message_into_notification_test =
     some_and (into_notification (Notification test_notification)) (\<lambda>n. notif_method n = ''test'')"

definition message_into_wrong_variant_returns_none_test :: bool where
  "message_into_wrong_variant_returns_none_test =
     (is_none (into_response (Request test_request)) \<and> is_none (into_notification (Response test_response))
      \<and> is_none (into_request (Notification test_notification)))"

lemma accessor_tests_pass:
  "list_all id
     [from_request_for_message_test, from_response_for_message_test, from_notification_for_message_test,
      message_as_request_test, message_as_response_test, message_as_notification_test, message_into_request_test,
      message_into_response_test, message_into_notification_test, message_into_wrong_variant_returns_none_test]"
  by code_simp

end
