(* ===== verification/Queue_Tests.thy ===== *)
theory Queue_Tests
  imports Test_Support Request_Queue
begin

text \<open>
  The unit tests of \<open>src/src/request_queue.rs\<close>, on the reference runtime. A token is made in an
  empty token state, a oneshot channel in an empty channel state; awaiting a receiver is polling it
  after the call that settles it.
\<close>

subsection \<open>Incoming requests\<close>

definition incoming_register_and_complete_test :: bool where
  "incoming_register_and_complete_test =
     (let (token, tw) = token_new ref_tokio [];
          q = incoming_register incoming_new (int_id 1) token;
          (ok, q) = incoming_complete q (int_id 1)
      in ok \<and> \<not> incoming_is_pending q (int_id 1))"

definition incoming_complete_unknown_returns_false_test :: bool where
  "incoming_complete_unknown_returns_false_test = (\<not> fst (incoming_complete incoming_new (int_id 999)))"

definition incoming_is_pending_test :: bool where
  "incoming_is_pending_test =
     (let q0 = incoming_new;
          (token, tw) = token_new ref_tokio [];
          q1 = incoming_register q0 (int_id 1) token;
          (ok, q2) = incoming_complete q1 (int_id 1)
      in \<not> incoming_is_pending q0 (int_id 1) \<and> incoming_is_pending q1 (int_id 1)
         \<and> \<not> incoming_is_pending q2 (int_id 1))"

definition incoming_pending_count_test :: bool where
  "incoming_pending_count_test =
     (let q0 = incoming_new;
          (token1, tw) = token_new ref_tokio [];
          q1 = incoming_register q0 (int_id 1) token1;
          (token2, tw) = token_new ref_tokio tw;
          q2 = incoming_register q1 (int_id 2) token2;
          (ok1, q3) = incoming_complete q2 (int_id 1);
          (ok2, q4) = incoming_complete q3 (int_id 2)
      in incoming_pending_count q0 = 0 \<and> incoming_pending_count q1 = 1 \<and> incoming_pending_count q2 = 2
         \<and> incoming_pending_count q3 = 1 \<and> incoming_pending_count q4 = 0)"

definition incoming_default_test :: bool where
  "incoming_default_test = (incoming_pending_count incoming_default = 0)"

definition incoming_cancel_triggers_token_test :: bool where
  "incoming_cancel_triggers_token_test =
     (let (token, tw) = token_new ref_tokio [];
          q = incoming_register incoming_new (int_id 1) token;
          (ok, tw) = incoming_cancel ref_tokio q (int_id 1) tw
      in ok \<and> is_cancelled ref_tokio token tw)"

definition incoming_cancel_unknown_returns_false_test :: bool where
  "incoming_cancel_unknown_returns_false_test = (\<not> fst (incoming_cancel ref_tokio incoming_new (int_id 999) []))"

definition incoming_cancel_idempotent_test :: bool where
  "incoming_cancel_idempotent_test =
     (let (token, tw) = token_new ref_tokio [];
          q = incoming_register incoming_new (int_id 1) token;
          (ok1, tw) = incoming_cancel ref_tokio q (int_id 1) tw;
          (ok2, tw) = incoming_cancel ref_tokio q (int_id 1) tw
      in ok1 \<and> ok2)"

definition incoming_get_token_returns_clone_test :: bool where
  "incoming_get_token_returns_clone_test =
     (let (original_token, tw) = token_new ref_tokio [];
          q = incoming_register incoming_new (int_id 1) original_token;
          retrieved = incoming_get_token q (int_id 1)
      in some_and retrieved (\<lambda>t. is_cancelled ref_tokio original_token (token_cancel ref_tokio t tw)))"

definition incoming_get_token_unknown_returns_none_test :: bool where
  "incoming_get_token_unknown_returns_none_test = is_none (incoming_get_token incoming_new (int_id 999))"

definition incoming_complete_after_cancel_test :: bool where
  "incoming_complete_after_cancel_test =
     (let (token, tw) = token_new ref_tokio [];
          q = incoming_register incoming_new (int_id 1) token;
          (_, tw) = incoming_cancel ref_tokio q (int_id 1) tw
      in fst (incoming_complete q (int_id 1)))"

lemmas test_defs =
  int_id_def ok_null_def some_and_def is_some_def is_none_def request_id_from_i32_def response_ok_def ref_tokio_def

lemma incoming_tests_pass:
  "list_all id
     [incoming_register_and_complete_test, incoming_complete_unknown_returns_false_test, incoming_is_pending_test,
      incoming_pending_count_test, incoming_default_test]"
  "list_all id
     [incoming_cancel_triggers_token_test, incoming_cancel_unknown_returns_false_test,
      incoming_cancel_idempotent_test, incoming_get_token_returns_clone_test,
      incoming_get_token_unknown_returns_none_test, incoming_complete_after_cancel_test]"
  by (simp_all add: incoming_register_and_complete_test_def incoming_complete_unknown_returns_false_test_def
      incoming_is_pending_test_def incoming_pending_count_test_def incoming_default_test_def
      incoming_cancel_triggers_token_test_def incoming_cancel_unknown_returns_false_test_def
      incoming_cancel_idempotent_test_def incoming_get_token_returns_clone_test_def
      incoming_get_token_unknown_returns_none_test_def incoming_complete_after_cancel_test_def
      test_defs incoming_defs incoming_default_def ref_descends_def)

subsection \<open>Outgoing requests\<close>

definition outgoing_register_and_complete_test :: bool where
  "outgoing_register_and_complete_test =
     (let (rx, q, ow) = outgoing_register ref_tokio outgoing_new (int_id 1) [];
          response = response_ok (int_id 1) (JString ''response'');
          (ok, q, ow) = outgoing_complete ref_tokio q (int_id 1) response ow
      in ok \<and> (case oneshot_poll ref_tokio rx ow of Rx_value r \<Rightarrow> resp_id r = resp_id response | _ \<Rightarrow> False))"

definition outgoing_complete_unknown_returns_false_test :: bool where
  "outgoing_complete_unknown_returns_false_test =
     (\<not> fst (outgoing_complete ref_tokio outgoing_new (int_id 999) (ok_null 999) []))"

definition outgoing_cancel_drops_sender_test :: bool where
  "outgoing_cancel_drops_sender_test =
     (let (rx, q, ow) = outgoing_register ref_tokio outgoing_new (int_id 1) [];
          (ok, q, ow) = outgoing_cancel ref_tokio q (int_id 1) ow
      in ok \<and> \<not> outgoing_is_pending q (int_id 1) \<and> oneshot_poll ref_tokio rx ow = Rx_closed)"

definition outgoing_cancel_unknown_returns_false_test :: bool where
  "outgoing_cancel_unknown_returns_false_test =
     (\<not> fst (outgoing_cancel ref_tokio outgoing_new (int_id 999) []))"

definition outgoing_is_pending_test :: bool where
  "outgoing_is_pending_test =
     (let q0 = outgoing_new;
          (rx, q1, ow) = outgoing_register ref_tokio q0 (int_id 1) [];
          (ok, q2, ow) = outgoing_complete ref_tokio q1 (int_id 1) (ok_null 1) ow
      in \<not> outgoing_is_pending q0 (int_id 1) \<and> outgoing_is_pending q1 (int_id 1)
         \<and> \<not> outgoing_is_pending q2 (int_id 1))"

definition outgoing_pending_count_test :: bool where
  "outgoing_pending_count_test =
     (let q0 = outgoing_new;
          (rx1, q1, ow) = outgoing_register ref_tokio q0 (int_id 1) [];
          (rx2, q2, ow) = outgoing_register ref_tokio q1 (int_id 2) ow;
          (ok1, q3, ow) = outgoing_complete ref_tokio q2 (int_id 1) (ok_null 1) ow;
          (ok2, q4, ow) = outgoing_cancel ref_tokio q3 (int_id 2) ow
      in outgoing_pending_count q0 = 0 \<and> outgoing_pending_count q1 = 1 \<and> outgoing_pending_count q2 = 2
         \<and> outgoing_pending_count q3 = 1 \<and> outgoing_pending_count q4 = 0)"

definition outgoing_default_test :: bool where
  "outgoing_default_test = (outgoing_pending_count outgoing_default = 0)"

lemma outgoing_tests_pass:
  "list_all id
     [outgoing_register_and_complete_test, outgoing_complete_unknown_returns_false_test,
      outgoing_cancel_drops_sender_test, outgoing_cancel_unknown_returns_false_test]"
  "list_all id [outgoing_is_pending_test, outgoing_pending_count_test, outgoing_default_test]"
  by (simp_all add: outgoing_register_and_complete_test_def outgoing_complete_unknown_returns_false_test_def
      outgoing_cancel_drops_sender_test_def outgoing_cancel_unknown_returns_false_test_def
      outgoing_is_pending_test_def outgoing_pending_count_test_def outgoing_default_test_def
      test_defs outgoing_defs outgoing_default_def ref_set_def ref_poll_def)

subsection \<open>The queue\<close>

definition queue_new_creates_empty_test :: bool where
  "queue_new_creates_empty_test =
     (let queue = request_queue_new
      in incoming_pending_count (incoming queue) = 0 \<and> outgoing_pending_count (outgoing queue) = 0)"

definition queue_incoming_outgoing_independent_test :: bool where
  "queue_incoming_outgoing_independent_test =
     (let queue = request_queue_new;
          (token, tw) = token_new ref_tokio [];
          q1 = queue\<lparr>incoming := incoming_register (incoming queue) (int_id 1) token\<rparr>;
          (rx, out, ow) = outgoing_register ref_tokio (outgoing q1) (int_id 2) [];
          q2 = q1\<lparr>outgoing := out\<rparr>;
          q3 = q2\<lparr>incoming := snd (incoming_complete (incoming q2) (int_id 1))\<rparr>
      in incoming_pending_count (incoming q1) = 1 \<and> outgoing_pending_count (outgoing q1) = 0
         \<and> incoming_pending_count (incoming q2) = 1 \<and> outgoing_pending_count (outgoing q2) = 1
         \<and> incoming_pending_count (incoming q3) = 0 \<and> outgoing_pending_count (outgoing q3) = 1)"

definition queue_default_test :: bool where
  "queue_default_test =
     (let queue = request_queue_default
      in incoming_pending_count (incoming queue) = 0 \<and> outgoing_pending_count (outgoing queue) = 0)"

definition queue_with_string_request_id_test :: bool where
  "queue_with_string_request_id_test =
     (let queue = request_queue_new; str_id = request_id_from_str ''abc-123'';
          (token, tw) = token_new ref_tokio [];
          queue = queue\<lparr>incoming := incoming_register (incoming queue) str_id token\<rparr>
      in incoming_is_pending (incoming queue) str_id \<and> fst (incoming_complete (incoming queue) str_id))"

lemma queue_tests_pass:
  "list_all id
     [queue_new_creates_empty_test, queue_incoming_outgoing_independent_test, queue_default_test,
      queue_with_string_request_id_test]"
  by (simp add: queue_new_creates_empty_test_def queue_incoming_outgoing_independent_test_def
      queue_default_test_def queue_with_string_request_id_test_def request_queue_new_def request_queue_default_def
      test_defs incoming_defs outgoing_defs request_id_from_str_def)

subsection \<open>Parameters of \<open>$/cancelRequest\<close>\<close>

definition parse_cancel_params_integer_id_test :: bool where
  "parse_cancel_params_integer_id_test =
     (parse_cancel_params (Some (json_object [(''id'', json_int 42)])) = Some (IntegerId 42))"

definition parse_cancel_params_string_id_test :: bool where
  "parse_cancel_params_string_id_test =
     (parse_cancel_params (Some (json_object [(''id'', JString ''request-123'')])) = Some (StringId ''request-123''))"

definition parse_cancel_params_missing_params_test :: bool where
  "parse_cancel_params_missing_params_test = is_none (parse_cancel_params None)"

definition parse_cancel_params_missing_id_field_test :: bool where
  "parse_cancel_params_missing_id_field_test =
     is_none (parse_cancel_params (Some (json_object [(''other'', JString ''field'')])))"

definition parse_cancel_params_invalid_id_type_test :: bool where
  "parse_cancel_params_invalid_id_type_test =
     is_none (parse_cancel_params (Some (json_object [(''id'', JBool True)])))"

definition parse_cancel_params_null_id_test :: bool where
  "parse_cancel_params_null_id_test = is_none (parse_cancel_params (Some (json_object [(''id'', JNull)])))"

lemma parse_cancel_params_tests_pass:
  "list_all id
     [parse_cancel_params_integer_id_test, parse_cancel_params_string_id_test,
      parse_cancel_params_missing_params_test, parse_cancel_params_missing_id_field_test,
      parse_cancel_params_invalid_id_type_test, parse_cancel_params_null_id_test]"
  by code_simp

end
