(* ===== verification/Duplex_Support.thy ===== *)
theory Duplex_Support
  imports Test_Support Connection "HOL-Library.Monad_Syntax"
begin

text \<open>
  The two ends of \<open>tokio::io::duplex\<close> for the tests of \<open>src/src/client_sender.rs\<close> and
  \<open>src/src/connection.rs\<close>, on the reference runtime. An end is a connection with the world of its
  runtime. Awaiting the next item of an end first runs the drain task of the other: what it
  writes goes through the encoder, and the bytes through the decoder, into the receiver.

  A test is a term of the option monad; an \<open>unwrap\<close> or a pattern that would panic is \<open>None\<close>.
\<close>

type_synonym test_world = "(ref_tokens, oneshot_result list, message list \<times> bool) world"

record endpoint =
  conn :: connection
  env :: test_world

definition new_world :: test_world where
  "new_world = \<lparr>tokens = [], oneshots = [], outbound = mpsc_channel ref_tokio,
     response_maps = (\<lambda>_. Map.empty), id_counters = (\<lambda>_. 0), next_ref = 0\<rparr>"

text \<open>\<open>Connection::new\<close> on a stream that has nothing to read yet.\<close>

definition new_endpoint :: endpoint where
  "new_endpoint =
     (let (c, w) = connection_new ref_tokio (\<lambda>_. ((), [])) (\<lambda>io codec. ()) () new_world in \<lparr>conn = c, env = w\<rparr>)"

definition assert_that :: "bool \<Rightarrow> unit option" where
  "assert_that b = (if b then Some () else None)"

definition test_passes :: "unit option \<Rightarrow> bool" where
  "test_passes t = (t = Some ())"

subsection \<open>The wire\<close>

definition wire :: "message list \<Rightarrow> recv_event list" where
  "wire ms =
     (case decode_all json_read codec_new (encode_all json_write ms []) of
        (got, err, _) \<Rightarrow> map (\<lambda>m. Next (Some (Inr m))) got @ (case err of None \<Rightarrow> [] | Some e \<Rightarrow> [Next (Some (Inl e))]))"

definition plain_message :: "message \<Rightarrow> bool" where
  "plain_message m \<longleftrightarrow> message_wf m \<and> plain_json (message_serialize m)
     \<and> length (json_text (message_serialize m)) \<le> 18446744073709551615"

lemma opt_value_wf_code [code]: "opt_value_wf v = (case v of None \<Rightarrow> True | Some x \<Rightarrow> is_value x)"
  by (simp add: opt_value_wf_def split: option.split)

lemma response_error_wf_code [code]: "response_error_wf e = opt_value_wf (err_data e)"
  by (simp add: response_error_wf_def opt_value_wf_def)

text \<open>Plain messages arrive as they were sent, in order.\<close>

lemma wire_plain:
  assumes "list_all plain_message ms"
  shows "wire ms = map (\<lambda>m. Next (Some (Inr (message_canon m)))) ms"
proof -
  have "json_text_faithful json_read json_write m" if "plain_message m" for m
    using that by (intro json_ref.message_text_faithful) (auto simp: plain_message_def json_write_def usize_max_def)
  then have "frames (decode json_read) codec_new (encode_all json_write ms []) (map message_canon ms) codec_new []"
    using assms by (intro frames_encode_all) (auto simp: list_all_iff plain_message_def)
  then show ?thesis
    by (simp add: wire_def comp_def flip: decode_all_frames)
qed

lemma wire_code [code]:
  "wire ms =
     (if list_all plain_message ms then map (\<lambda>m. Next (Some (Inr (message_canon m)))) ms
      else case decode_all json_read codec_new (encode_all json_write ms []) of
        (got, err, _) \<Rightarrow> map (\<lambda>m. Next (Some (Inr m))) got @ (case err of None \<Rightarrow> [] | Some e \<Rightarrow> [Next (Some (Inl e))]))"
  by (simp add: wire_plain) (simp add: wire_def)

text \<open>The drain task of \<open>a\<close> writes its queue; \<open>b\<close> reads the bytes.\<close>

definition transfer :: "endpoint \<Rightarrow> endpoint \<Rightarrow> endpoint \<times> endpoint" where
  "transfer a b =
     (case drain_task ref_tokio (conn_drain_alive (conn a)) False (map (\<lambda>_. Inr ()) (fst (outbound (env a)))) (env a) of
        (ms, _, w) \<Rightarrow>
          (a\<lparr>env := w\<rparr>, b\<lparr>conn := (conn b)\<lparr>receiver := receiver (conn b) @ wire ms\<rparr>\<rparr>))"

text \<open>\<open>e.receiver.next().await.unwrap().unwrap()\<close>, where the drain task of \<open>peer\<close> runs first.\<close>

definition await_next :: "endpoint \<Rightarrow> endpoint \<Rightarrow> (message \<times> endpoint \<times> endpoint) option" where
  "await_next e peer =
     (let (peer, e) = transfer peer e
      in case receiver (conn e) of
           Next (Some (Inr m)) # es \<Rightarrow> Some (m, e\<lparr>conn := (conn e)\<lparr>receiver := es\<rparr>\<rparr>, peer)
         | _ \<Rightarrow> None)"

text \<open>A stream that ended, a timer that elapsed, a write that fails because the other end is gone.\<close>

definition stream_ends :: "endpoint \<Rightarrow> endpoint" where
  "stream_ends e = e\<lparr>conn := (conn e)\<lparr>receiver := receiver (conn e) @ [Next None]\<rparr>\<rparr>"

definition time_elapses :: "endpoint \<Rightarrow> endpoint" where
  "time_elapses e = e\<lparr>conn := (conn e)\<lparr>receiver := receiver (conn e) @ [Elapsed]\<rparr>\<rparr>"

definition write_fails :: "endpoint \<Rightarrow> endpoint" where
  "write_fails e =
     (case drain_task ref_tokio (conn_drain_alive (conn e)) False [Inl closed_error] (env e) of (_, _, w) \<Rightarrow> e\<lparr>env := w\<rparr>)"

subsection \<open>Calls on an end\<close>

definition unwrap :: "'e + 'a \<Rightarrow> 'a option" where
  "unwrap r = (case r of Inl _ \<Rightarrow> None | Inr a \<Rightarrow> Some a)"

definition ready :: "'a poll \<Rightarrow> 'a option" where
  "ready p = (case p of Pending \<Rightarrow> None | Ready a \<Rightarrow> Some a)"

definition do_send :: "message \<Rightarrow> endpoint \<Rightarrow> endpoint option" where
  "do_send m e = (let (r, w) = conn_send ref_tokio m (env e) in map_option (\<lambda>_. e\<lparr>env := w\<rparr>) (unwrap r))"

definition do_route :: "message \<Rightarrow> endpoint \<Rightarrow> incoming_message \<times> endpoint" where
  "do_route m e = (let (r, c, w) = route ref_tokio (conn e) m (env e) in (r, \<lparr>conn = c, env = w\<rparr>))"

definition do_client_sender :: "endpoint \<Rightarrow> client_sender \<times> endpoint" where
  "do_client_sender e = (let (s, c, w) = conn_client_sender (conn e) (env e) in (s, \<lparr>conn = c, env = w\<rparr>))"

definition do_register_outgoing :: "request_id \<Rightarrow> endpoint \<Rightarrow> oneshot \<times> endpoint" where
  "do_register_outgoing i e =
     (let q = conn_queue (conn e); (rx, oq, ow) = outgoing_register ref_tokio (outgoing q) i (oneshots (env e))
      in (rx, \<lparr>conn = (conn e)\<lparr>conn_queue := q\<lparr>outgoing := oq\<rparr>\<rparr>, env = (env e)\<lparr>oneshots := ow\<rparr>\<rparr>))"

definition poll_oneshot :: "oneshot \<Rightarrow> endpoint \<Rightarrow> oneshot_result" where
  "poll_oneshot rx e = oneshot_poll ref_tokio rx (oneshots (env e))"

definition received :: "oneshot \<Rightarrow> endpoint \<Rightarrow> response option" where
  "received rx e = (case poll_oneshot rx e of Rx_value r \<Rightarrow> Some r | _ \<Rightarrow> None)"

definition token_cancelled :: "token \<Rightarrow> endpoint \<Rightarrow> bool" where
  "token_cancelled t e = is_cancelled ref_tokio t (tokens (env e))"

text \<open>A spawned \<open>request\<close>, which runs up to the await of its response.\<close>

definition spawn_request :: "client_sender \<Rightarrow> string \<Rightarrow> json option \<Rightarrow> endpoint \<Rightarrow> (request_future \<times> endpoint) option" where
  "spawn_request s method params e =
     (case request ref_tokio s method params (env e) of
        (Some (Awaiting f), w) \<Rightarrow> Some (f, e\<lparr>env := w\<rparr>)
      | _ \<Rightarrow> None)"

text \<open>
  Awaiting the task of a request: the poll must be ready, and give the same result in both orders
  of the branches of \<open>select!\<close>.
\<close>

definition join_request :: "request_future \<Rightarrow> endpoint \<Rightarrow> ((protocol_error + response) \<times> endpoint) option" where
  "join_request f e = do {
     (r, w) \<leftarrow> ready (poll_request ref_tokio True f (env e));
     (r', w') \<leftarrow> ready (poll_request ref_tokio False f (env e));
     assert_that (r = r');
     Some (r, e\<lparr>env := w\<rparr>)
   }"

definition join_response :: "request_future \<Rightarrow> endpoint \<Rightarrow> (response \<times> endpoint) option" where
  "join_response f e = do {
     (r, e) \<leftarrow> join_request f e;
     r \<leftarrow> unwrap r;
     Some (r, e)
   }"

text \<open>\<open>request_timeout\<close> after its time has elapsed.\<close>

definition join_elapsed :: "request_future \<Rightarrow> endpoint \<Rightarrow> ((protocol_error + response) \<times> endpoint) option" where
  "join_elapsed f e = do {
     (r, w) \<leftarrow> ready (poll_request_timeout ref_tokio True True f (env e));
     Some (r, e\<lparr>env := w\<rparr>)
   }"

end
