(* ===== verification/Codec_Tests.thy ===== *)
theory Codec_Tests
  imports Duplex_Support
begin

text \<open>
  The unit tests of \<open>src/src/codec.rs\<close> and \<open>src/src/transport.rs\<close>. A buffer is its list of bytes; a
  string literal with characters outside ASCII is written with its UTF-8 bytes.
\<close>

definition do_encode :: "message \<Rightarrow> bytes \<Rightarrow> bytes option" where
  "do_encode m buf = (case encode json_write codec_new m buf of (r, _, buf) \<Rightarrow> map_option (\<lambda>_. buf) (unwrap r))"

definition do_decode :: "lsp_codec \<Rightarrow> bytes \<Rightarrow> (message option \<times> lsp_codec \<times> bytes) option" where
  "do_decode c buf = (case decode json_read c buf of (r, c, buf) \<Rightarrow> map_option (\<lambda>m. (m, c, buf)) (unwrap r))"

definition decode_message :: "lsp_codec \<Rightarrow> bytes \<Rightarrow> (message \<times> lsp_codec \<times> bytes) option" where
  "decode_message c buf = do { (m, c, buf) \<leftarrow> do_decode c buf; m \<leftarrow> m; Some (m, c, buf) }"

definition framed_text :: "string \<Rightarrow> string \<Rightarrow> bytes" where
  "framed_text name body = name @ show_nat (length body) @ header_terminator @ body"

definition length_field :: string where
  "length_field = ''Content-Length: ''"

text \<open>\<open>splitn(2, "\r\n\r\n")\<close>, when the separator occurs.\<close>

definition split_frame :: "bytes \<Rightarrow> (bytes \<times> bytes) option" where
  "split_frame s = map_option (\<lambda>k. (take k s, drop (k + 4) s)) (find_subsequence s header_terminator)"

text \<open>\<open>header.strip_prefix("Content-Length: ").unwrap().parse::<usize>().unwrap()\<close>\<close>

definition header_length :: "bytes \<Rightarrow> nat option" where
  "header_length h = (if starts_with h length_field then unwrap (parse_usize (drop (length length_field) h)) else None)"

definition parse_value :: "bytes \<Rightarrow> json option" where
  "parse_value body = unwrap (json_read body)"

subsection \<open>Encoding\<close>

definition encode_request_test :: bool where
  "encode_request_test = test_passes (do {
     output \<leftarrow> do_encode (Request (request_new (int_id 1) ''test/method'' None)) [];
     assert_that (utf8_valid output \<and> starts_with output length_field);
     (header, body) \<leftarrow> split_frame output;
     parsed \<leftarrow> parse_value body;
     assert_that (value_index parsed ''method'' = JString ''test/method'' \<and> value_index parsed ''id'' = json_int 1
       \<and> value_index parsed ''jsonrpc'' = JString ''2.0'');
     n \<leftarrow> header_length header;
     assert_that (n = length body)
   })"

definition encode_response_test :: bool where
  "encode_response_test = test_passes (do {
     output \<leftarrow> do_encode (Response (response_ok (int_id 42) (json_object [(''result'', JString ''value'')]))) [];
     assert_that (utf8_valid output \<and> starts_with output length_field);
     (header, body) \<leftarrow> split_frame output;
     parsed \<leftarrow> parse_value body;
     assert_that (value_index parsed ''id'' = json_int 42 \<and> is_some (value_get parsed ''result''))
   })"

definition encode_notification_test :: bool where
  "encode_notification_test = test_passes (do {
     output \<leftarrow> do_encode (Notification (notification_new ''textDocument/didOpen''
       (Some (json_object [(''uri'', JString ''file:///test'')])))) [];
     assert_that (utf8_valid output \<and> starts_with output length_field);
     (header, body) \<leftarrow> split_frame output;
     parsed \<leftarrow> parse_value body;
     assert_that (value_index parsed ''method'' = JString ''textDocument/didOpen'' \<and> is_none (value_get parsed ''id''))
   })"

definition japanese_method :: string where
  "japanese_method = ''test/'' @ map char_of [0xE6, 0x97, 0xA5, 0xE6, 0x9C, 0xAC :: nat]"

definition content_length_byte_count_test :: bool where
  "content_length_byte_count_test = test_passes (do {
     output \<leftarrow> do_encode (Request (request_new (int_id 1) japanese_method None)) [];
     assert_that (utf8_valid output);
     (header, body) \<leftarrow> split_frame output;
     n \<leftarrow> header_length header;
     assert_that (n = length body \<and> length (filter (\<lambda>b. \<not> utf8_cont b) body) < length body)
   })"

lemma encode_tests_pass:
  "list_all id [encode_request_test, encode_response_test, encode_notification_test, content_length_byte_count_test]"
  by code_simp

subsection \<open>Decoding\<close>

definition test_body :: string where
  "test_body = ''{\"jsonrpc\":\"2.0\",\"id\":1,\"method\":\"test\"}''"

definition decode_complete_message_test :: bool where
  "decode_complete_message_test = test_passes (do {
     (msg, c, buf) \<leftarrow> decode_message codec_new (framed_text length_field test_body);
     req \<leftarrow> as_request msg;
     assert_that (req_method req = ''test'')
   })"

definition decode_partial_header_test :: bool where
  "decode_partial_header_test = test_passes (do {
     (m, c, buf) \<leftarrow> do_decode codec_new length_field;
     assert_that (is_none m);
     (m, c, buf) \<leftarrow> do_decode c (buf @ ''40'' @ crlf);
     assert_that (is_none m);
     (m, c, buf) \<leftarrow> do_decode c (buf @ crlf);
     assert_that (is_none m \<and> length test_body = 40);
     (msg, c, buf) \<leftarrow> decode_message c (buf @ test_body);
     assert_that (is_request msg)
   })"

definition decode_partial_body_test :: bool where
  "decode_partial_body_test = test_passes (do {
     (m, c, buf) \<leftarrow> do_decode codec_new (length_field @ show_nat (length test_body) @ header_terminator @ take 20 test_body);
     assert_that (is_none m);
     (msg, c, buf) \<leftarrow> decode_message c (buf @ drop 20 test_body);
     assert_that (is_request msg)
   })"

definition decode_multiple_messages_test :: bool where
  "decode_multiple_messages_test = test_passes (do {
     (msg1, c, buf) \<leftarrow> decode_message codec_new
       (framed_text length_field ''{\"jsonrpc\":\"2.0\",\"id\":1,\"method\":\"first\"}''
        @ framed_text length_field ''{\"jsonrpc\":\"2.0\",\"id\":2,\"method\":\"second\"}'');
     req \<leftarrow> as_request msg1;
     assert_that (req_method req = ''first'' \<and> buf \<noteq> []);
     (msg2, c, buf) \<leftarrow> decode_message c buf;
     req \<leftarrow> as_request msg2;
     assert_that (req_method req = ''second'' \<and> buf = [])
   })"

definition case_insensitive_header_parsing_test :: bool where
  "case_insensitive_header_parsing_test = test_passes (do {
     (msg, c, buf) \<leftarrow> decode_message codec_new (framed_text ''content-length: '' test_body);
     assert_that (is_request msg)
   })"

definition decode_invalid_json_returns_error_test :: bool where
  "decode_invalid_json_returns_error_test =
     err_and (fst (decode json_read codec_new (framed_text length_field ''{ not valid json }'')))
       (\<lambda>e. case e of Io_error kind _ \<Rightarrow> kind = InvalidData)"

definition decode_missing_content_length_returns_error_test :: bool where
  "decode_missing_content_length_returns_error_test =
     err_and (fst (decode json_read codec_new (''Some-Other-Header: value'' @ header_terminator @ ''{}''))) (\<lambda>_. True)"

lemma decode_tests_pass:
  "list_all id
     [decode_complete_message_test, decode_partial_header_test, decode_partial_body_test,
      decode_multiple_messages_test, case_insensitive_header_parsing_test, decode_invalid_json_returns_error_test,
      decode_missing_content_length_returns_error_test]"
  by code_simp

subsection \<open>Round trips\<close>

definition encode_decode_roundtrip_test :: bool where
  "encode_decode_roundtrip_test = test_passes (do {
     let request = request_new (int_id 123) ''textDocument/completion''
       (Some (json_object [(''position'', json_object [(''line'', json_int 10)])]));
     buf \<leftarrow> do_encode (Request request) [];
     buf \<leftarrow> do_encode (Response (response_ok (int_id 456) (json_object [(''items'', JArray [])]))) buf;
     buf \<leftarrow> do_encode (Notification (notification_new ''textDocument/didSave'' None)) buf;
     (decoded_request, c, buf) \<leftarrow> decode_message codec_new buf;
     decoded \<leftarrow> as_request decoded_request;
     assert_that (req_id request = req_id decoded \<and> req_method request = req_method decoded);
     (decoded_response, c, buf) \<leftarrow> decode_message c buf;
     assert_that (is_response decoded_response);
     (decoded_notification, c, buf) \<leftarrow> decode_message c buf;
     assert_that (is_notification decoded_notification \<and> buf = [])
   })"

definition response_error_roundtrip_test :: bool where
  "response_error_roundtrip_test = test_passes (do {
     buf \<leftarrow> do_encode (Response (response_err (int_id 1) (response_error_new MethodNotFound ''Method not found''))) [];
     (decoded, c, buf) \<leftarrow> decode_message codec_new buf;
     r \<leftarrow> as_response decoded;
     e \<leftarrow> response_into_error r;
     assert_that (err_code e = -32601)
   })"

lemma codec_roundtrip_tests_pass: "list_all id [encode_decode_roundtrip_test, response_error_roundtrip_test]"
  by code_simp

end
