(* ===== verification/Transport_Tests.thy ===== *)
theory Transport_Tests
  imports Codec_Tests
begin

text \<open>
  The unit tests of \<open>src/src/transport.rs\<close>. A framed transport is its codec with the bytes that
  have arrived for it; a message sent on one end is encoded into the bytes of the other.
\<close>

type_synonym framed = "lsp_codec \<times> bytes"

definition test_transports :: "nat \<Rightarrow> framed \<times> framed" where
  "test_transports n = duplex_transport (\<lambda>io codec. (codec, [])) (\<lambda>_. ((), ())) n"

definition framed_send :: "message \<Rightarrow> framed \<Rightarrow> framed option" where
  "framed_send m peer = map_option (\<lambda>buf. (fst peer, buf)) (do_encode m (snd peer))"

definition framed_next :: "framed \<Rightarrow> (message \<times> framed) option" where
  "framed_next f = decode_message (fst f) (snd f)"

definition duplex_request_response_test :: bool where
  "duplex_request_response_test = test_passes (do {
     let (client, server) = test_transports 4096;
     server \<leftarrow> framed_send (Request (request_new (int_id 1) ''textDocument/hover'' (Some (json_object
       [(''textDocument'', json_object [(''uri'', JString ''file:///test.rs'')]),
        (''position'', json_object [(''line'', json_int 10), (''character'', json_int 5)])])))) server;
     (m, server) \<leftarrow> framed_next server;
     req \<leftarrow> as_request m;
     assert_that (req_method req = ''textDocument/hover'' \<and> req_id req = int_id 1);
     client \<leftarrow> framed_send (Response (response_ok (int_id 1) (json_object [(''contents'', JString ''fn main()'')]))) client;
     (m, client) \<leftarrow> framed_next client;
     resp \<leftarrow> as_response m;
     assert_that (resp_id resp = Some (int_id 1) \<and> is_some (response_result resp))
   })"

definition duplex_notification_test :: bool where
  "duplex_notification_test = test_passes (do {
     let (client, server) = test_transports 4096;
     server \<leftarrow> framed_send (Notification (notification_new ''textDocument/didOpen'' (Some (json_object
       [(''textDocument'', json_object
          [(''uri'', JString ''file:///test.rs''), (''languageId'', JString ''rust''), (''version'', json_int 1),
           (''text'', JString ''fn main() {}'')])])))) server;
     (m, server) \<leftarrow> framed_next server;
     notif \<leftarrow> as_notification m;
     assert_that (notif_method notif = ''textDocument/didOpen'')
   })"

definition duplex_multiple_messages_test :: bool where
  "duplex_multiple_messages_test = test_passes (do {
     let (client, server) = test_transports 4096;
     server \<leftarrow> framed_send (Request (request_new (int_id 1) ''first'' None)) server;
     server \<leftarrow> framed_send (Request (request_new (int_id 2) ''second'' None)) server;
     server \<leftarrow> framed_send (Request (request_new (int_id 3) ''third'' None)) server;
     (m1, server) \<leftarrow> framed_next server;
     (m2, server) \<leftarrow> framed_next server;
     (m3, server) \<leftarrow> framed_next server;
     r1 \<leftarrow> as_request m1;
     assert_that (req_method r1 = ''first'' \<and> req_id r1 = int_id 1);
     r2 \<leftarrow> as_request m2;
     assert_that (req_method r2 = ''second'' \<and> req_id r2 = int_id 2);
     r3 \<leftarrow> as_request m3;
     assert_that (req_method r3 = ''third'' \<and> req_id r3 = int_id 3)
   })"

definition duplex_bidirectional_concurrent_test :: bool where
  "duplex_bidirectional_concurrent_test = test_passes (do {
     let (client, server) = test_transports 4096;
     server \<leftarrow> framed_send (Request (request_new (int_id 1) ''client/message'' None)) server;
     client \<leftarrow> framed_send (Notification (notification_new ''server/notification'' None)) client;
     (from_client, server) \<leftarrow> framed_next server;
     (from_server, client) \<leftarrow> framed_next client;
     r \<leftarrow> as_request from_client;
     assert_that (req_method r = ''client/message'');
     n \<leftarrow> as_notification from_server;
     assert_that (notif_method n = ''server/notification'')
   })"

definition response_with_error_test :: bool where
  "response_with_error_test = test_passes (do {
     let (client, server) = test_transports 4096;
     server \<leftarrow> framed_send (Request (request_new (int_id 1) ''unknown/method'' None)) server;
     (m, server) \<leftarrow> framed_next server;
     client \<leftarrow> framed_send (Response (response_err (int_id 1) (response_error_new MethodNotFound ''Method not found''))) client;
     (m, client) \<leftarrow> framed_next client;
     resp \<leftarrow> as_response m;
     assert_that (resp_id resp = Some (int_id 1));
     e \<leftarrow> response_into_error resp;
     assert_that (err_code e = -32601 \<and> err_message e = ''Method not found'')
   })"

lemma transport_tests_pass:
  "list_all id [duplex_request_response_test, duplex_notification_test]"
  "list_all id [duplex_multiple_messages_test]"
  "list_all id [duplex_bidirectional_concurrent_test, response_with_error_test]"
  by code_simp+

subsection \<open>A large message\<close>

definition large_data :: "nat \<Rightarrow> string" where
  "large_data n = replicate n CHR ''x''"

definition large_message_of_size :: "nat \<Rightarrow> bool" where
  "large_message_of_size n = test_passes (do {
     let (client, server) = test_transports 16384;
     server \<leftarrow> framed_send (Request (request_new (int_id 42) ''large/data''
       (Some (json_object [(''content'', JString (large_data n))])))) server;
     (m, server) \<leftarrow> framed_next server;
     req \<leftarrow> as_request m;
     assert_that (req_method req = ''large/data'');
     params \<leftarrow> req_params req;
     content \<leftarrow> as_str (value_index params ''content'');
     assert_that (length content = n \<and> content = large_data n)
   })"

definition large_message_test :: bool where
  "large_message_test = large_message_of_size 10000"

text \<open>A plain message sent to an end with nothing to read arrives in its canonical form.\<close>

lemma framed_send_next:
  assumes "plain_message m"
  shows "\<exists>f. framed_send m (codec_new, []) = Some f \<and> framed_next f = Some (message_canon m, (codec_new, []))"
proof -
  have "json_text_faithful json_read json_write m"
    using assms by (intro json_ref.message_text_faithful) (auto simp: plain_message_def json_write_def usize_max_def)
  then obtain body where body: "length body \<le> usize_max" "message_from_slice json_read body = Inr (message_canon m)"
    "\<And>dst. encode json_write codec_new m dst =
      (Inr (), codec_new, dst @ (''Content-Length: '' @ show_nat (length body) @ header_terminator) @ body)"
    using assms by (metis encode_frame plain_message_def)
  then show ?thesis
    using decode_frame [OF body(1), of json_read "[]"]
    by (simp add: framed_send_def framed_next_def do_encode_def do_decode_def decode_message_def unwrap_def)
qed

text \<open>So the test passes for every size whose text fits a \<open>usize\<close>.\<close>

lemma large_text_length:
  "length (json_text (message_serialize (Request (request_new i ''large/data'' (Some (JObject [(''content'', JString (large_data n))])))))) =
   n + length (json_text (message_serialize (Request (request_new i ''large/data'' (Some (JObject [(''content'', JString [])]))))))"
proof -
  have "concat (map write_char (large_data n)) = large_data n"
    by (induction n) (simp_all add: large_data_def write_char_def short_escapes_def quote_char_def backslash_def)
  then show ?thesis
    by (simp add: request_serialize_def request_new_def write_string_def large_data_def)
qed

lemma large_message_passes:
  assumes "n \<le> 18446744073709551000"
  shows "large_message_of_size n"
proof -
  let ?m = "\<lambda>s. Request (request_new (int_id 42) ''large/data'' (Some (JObject [(''content'', JString s)])))"
  have "length (json_text (message_serialize (?m []))) \<le> 500"
    by code_simp
  moreover have "plain_json (request_id_serialize (int_id 42))"
    by code_simp
  ultimately have "plain_message (?m (large_data n))"
    using assms unfolding plain_message_def large_text_length
    by (simp add: request_serialize_def request_new_def opt_value_wf_def)
  then obtain f where "framed_send (?m (large_data n)) (codec_new, []) = Some f"
    "framed_next f = Some (message_canon (?m (large_data n)), (codec_new, []))"
    using framed_send_next by blast
  moreover have "json_object [(''content'', JString (large_data n))] = JObject [(''content'', JString (large_data n))]"
    by (simp add: json_object_def btree_of_def)
  ultimately show ?thesis
    by (simp add: large_message_of_size_def test_passes_def test_transports_def duplex_transport_def transport_def
        request_new_def drop_null_def as_request_def value_index_def value_get_def as_str_def assert_that_def large_data_def)
qed

lemma large_message_test_passes: "large_message_test"
  by (simp add: large_message_test_def large_message_passes)

end
