(* ===== verification/Client_Sender_Tests.thy ===== *)
theory Client_Sender_Tests
  imports Duplex_Support
begin

text \<open>
  The unit tests of \<open>src/src/client_sender.rs\<close>. A spawned request runs until it awaits its
  response; joining its task polls it.
\<close>

definition int_response :: "i32 \<Rightarrow> json \<Rightarrow> response" where
  "int_response n v = response_ok (int_id n) v"

subsection \<open>Notifications, responses and requests\<close>

definition client_sender_notify_sends_notification_test :: bool where
  "client_sender_notify_sends_notification_test = test_passes (do {
     let server = new_endpoint; let client = new_endpoint;
     let (sender, server) = do_client_sender server;
     let (r, w) = notify ref_tokio sender ''window/logMessage'' (Some (json_object [(''type'', json_int 4)])) (env server);
     unwrap r;
     (m, client, server) \<leftarrow> await_next client (server\<lparr>env := w\<rparr>);
     case m of
       Notification notification \<Rightarrow> assert_that
         (notif_method notification = ''window/logMessage''
          \<and> notif_params notification = Some (json_object [(''type'', json_int 4)]))
     | _ \<Rightarrow> None
   })"

definition client_sender_respond_sends_response_test :: bool where
  "client_sender_respond_sends_response_test = test_passes (do {
     let server = new_endpoint; let client = new_endpoint;
     let (sender, server) = do_client_sender server;
     let (r, w) = respond ref_tokio sender (int_response 7 (JString ''ok'')) (env server);
     unwrap r;
     (m, client, server) \<leftarrow> await_next client (server\<lparr>env := w\<rparr>);
     case m of
       Response response \<Rightarrow> assert_that
         (resp_id response = Some (int_id 7) \<and> response_result response = Some (JString ''ok''))
     | _ \<Rightarrow> None
   })"

definition client_sender_request_auto_id_test :: bool where
  "client_sender_request_auto_id_test = test_passes (do {
     let server = new_endpoint; let client = new_endpoint;
     let (sender, server) = do_client_sender server;
     (first_task, server) \<leftarrow> spawn_request sender ''first'' None server;
     (m, client, server) \<leftarrow> await_next client server;
     first \<leftarrow> as_request m;
     assert_that (req_method first = ''first'' \<and> req_id first = IntegerId 1);
     (second_task, server) \<leftarrow> spawn_request sender ''second'' None server;
     (m, client, server) \<leftarrow> await_next client server;
     second \<leftarrow> as_request m;
     assert_that (req_method second = ''second'' \<and> req_id second = IntegerId 2);
     let (routed, server) = do_route (Response (response_ok (req_id first) (JString ''first''))) server;
     assert_that (routed = ResponseRouted);
     let (routed, server) = do_route (Response (response_ok (req_id second) (JString ''second''))) server;
     assert_that (routed = ResponseRouted);
     (r1, server) \<leftarrow> join_response first_task server;
     (r2, server) \<leftarrow> join_response second_task server;
     assert_that (resp_id r1 = Some (req_id first) \<and> resp_id r2 = Some (req_id second))
   })"

definition client_sender_request_gets_response_test :: bool where
  "client_sender_request_gets_response_test = test_passes (do {
     let server = new_endpoint; let client = new_endpoint;
     let (sender, server) = do_client_sender server;
     (task, server) \<leftarrow> spawn_request sender ''workspace/configuration'' (Some (json_object [(''items'', JArray [])])) server;
     (m, client, server) \<leftarrow> await_next client server;
     req \<leftarrow> as_request m;
     assert_that (req_method req = ''workspace/configuration'');
     let (routed, server) = do_route (Response (response_ok (req_id req) (json_object [(''settings'', JArray [])]))) server;
     assert_that (routed = ResponseRouted);
     (response, server) \<leftarrow> join_response task server;
     assert_that (resp_id response = Some (req_id req)
       \<and> response_result response = Some (json_object [(''settings'', JArray [])]))
   })"

definition client_sender_concurrent_requests_test :: bool where
  "client_sender_concurrent_requests_test = test_passes (do {
     let server = new_endpoint; let client = new_endpoint;
     let (sender, server) = do_client_sender server;
     (task1, server) \<leftarrow> spawn_request sender ''first'' None server;
     (task2, server) \<leftarrow> spawn_request sender ''second'' None server;
     (task3, server) \<leftarrow> spawn_request sender ''third'' None server;
     (m0, client, server) \<leftarrow> await_next client server;
     req0 \<leftarrow> as_request m0;
     (m1, client, server) \<leftarrow> await_next client server;
     req1 \<leftarrow> as_request m1;
     (m2, client, server) \<leftarrow> await_next client server;
     req2 \<leftarrow> as_request m2;
     let (routed, server) = do_route (Response (response_ok (req_id req2) (JString (req_method req2)))) server;
     assert_that (routed = ResponseRouted);
     let (routed, server) = do_route (Response (response_ok (req_id req0) (JString (req_method req0)))) server;
     assert_that (routed = ResponseRouted);
     let (routed, server) = do_route (Response (response_ok (req_id req1) (JString (req_method req1)))) server;
     assert_that (routed = ResponseRouted);
     (r1, server) \<leftarrow> join_response task1 server;
     (r2, server) \<leftarrow> join_response task2 server;
     (r3, server) \<leftarrow> join_response task3 server;
     assert_that (map response_result [r1, r2, r3] = [Some (JString ''first''), Some (JString ''second''), Some (JString ''third'')])
   })"

subsection \<open>Time-outs, aborted tasks and closed connections\<close>

definition client_sender_request_timeout_test :: bool where
  "client_sender_request_timeout_test = test_passes (do {
     let server = new_endpoint;
     let (sender, server) = do_client_sender server;
     (task, server) \<leftarrow> spawn_request sender ''workspace/configuration'' None server;
     (result, server) \<leftarrow> join_elapsed task server;
     assert_that (result = Inl RequestTimeout)
   })"

definition client_sender_request_disconnected_test :: bool where
  "client_sender_request_disconnected_test = test_passes (do {
     let server = new_endpoint;
     let (sender, server) = do_client_sender server;
     let server = stream_ends server;
     (task, server) \<leftarrow> spawn_request sender ''test'' None server;
     let server = write_fails server;
     (result, server) \<leftarrow> join_request task server;
     assert_that (result = Inl Disconnected)
   })"

definition client_sender_notify_after_close_test :: bool where
  "client_sender_notify_after_close_test = test_passes (do {
     let server = new_endpoint;
     let (sender, server) = do_client_sender server;
     let server = stream_ends server;
     let (_, w) = notify ref_tokio sender ''window/logMessage'' None (env server);
     let server = write_fails (server\<lparr>env := w\<rparr>);
     let (r, w) = notify ref_tokio sender ''window/logMessage'' None (env server);
     assert_that (r = Inl SendError)
   })"

definition client_sender_request_timeout_does_not_swallow_late_response_test :: bool where
  "client_sender_request_timeout_does_not_swallow_late_response_test = test_passes (do {
     let server = new_endpoint; let client = new_endpoint;
     let (sender, server) = do_client_sender server;
     (task, server) \<leftarrow> spawn_request sender ''late-response'' None server;
     (m, client, server) \<leftarrow> await_next client server;
     req \<leftarrow> as_request m;
     (result, server) \<leftarrow> join_elapsed task server;
     assert_that (result = Inl RequestTimeout);
     let (routed, server) = do_route (Response (response_ok (req_id req) (JBool True))) server;
     case routed of
       ResponseUnknown response \<Rightarrow> assert_that (resp_id response = Some (req_id req))
     | _ \<Rightarrow> None
   })"

definition client_sender_aborted_request_does_not_swallow_late_response_test :: bool where
  "client_sender_aborted_request_does_not_swallow_late_response_test = test_passes (do {
     let server = new_endpoint; let client = new_endpoint;
     let (sender, server) = do_client_sender server;
     (task, server) \<leftarrow> spawn_request sender ''aborted'' None server;
     (m, client, server) \<leftarrow> await_next client server;
     req \<leftarrow> as_request m;
     let server = server\<lparr>env := drop_request ref_tokio task (env server)\<rparr>;
     let (routed, server) = do_route (Response (response_ok (req_id req) (JBool True))) server;
     case routed of
       ResponseUnknown response \<Rightarrow> assert_that (resp_id response = Some (req_id req))
     | _ \<Rightarrow> None
   })"

definition client_sender_timeout_preserves_other_pending_requests_test :: bool where
  "client_sender_timeout_preserves_other_pending_requests_test = test_passes (do {
     let server = new_endpoint; let client = new_endpoint;
     let (sender, server) = do_client_sender server;
     (timeout_task, server) \<leftarrow> spawn_request sender ''timeout'' None server;
     (ok_task, server) \<leftarrow> spawn_request sender ''ok'' None server;
     (m, client, server) \<leftarrow> await_next client server;
     first_request \<leftarrow> as_request m;
     (m, client, server) \<leftarrow> await_next client server;
     second_request \<leftarrow> as_request m;
     let (timed_out, live_request) =
       (if req_method first_request = ''timeout'' then (first_request, second_request) else (second_request, first_request));
     (result, server) \<leftarrow> join_elapsed timeout_task server;
     assert_that (result = Inl RequestTimeout);
     let (routed, server) = do_route (Response (response_ok (req_id live_request) (JString ''ok''))) server;
     assert_that (routed = ResponseRouted);
     (r, server) \<leftarrow> join_response ok_task server;
     assert_that (response_result r = Some (JString ''ok''));
     let (routed, server) = do_route (Response (response_ok (req_id timed_out) (JString ''late''))) server;
     assert_that (is_response_unknown routed)
   })"

subsection \<open>Clones, routing and the id counter\<close>

definition client_sender_multiple_clones_share_state_test :: bool where
  "client_sender_multiple_clones_share_state_test = test_passes (do {
     let server = new_endpoint; let client = new_endpoint;
     let (sender, server) = do_client_sender server;
     let sender_clone = sender;
     (first_task, server) \<leftarrow> spawn_request sender ''first'' None server;
     (second_task, server) \<leftarrow> spawn_request sender_clone ''second'' None server;
     (m, client, server) \<leftarrow> await_next client server;
     first_request \<leftarrow> as_request m;
     (m, client, server) \<leftarrow> await_next client server;
     second_request \<leftarrow> as_request m;
     assert_that (req_id first_request = IntegerId 1 \<and> req_id second_request = IntegerId 2);
     let (routed, server) = do_route (Response (response_ok (req_id first_request) (JString (req_method first_request)))) server;
     assert_that (routed = ResponseRouted);
     let (routed, server) = do_route (Response (response_ok (req_id second_request) (JString (req_method second_request)))) server;
     assert_that (routed = ResponseRouted);
     (r1, server) \<leftarrow> join_response first_task server;
     (r2, server) \<leftarrow> join_response second_task server;
     assert_that (response_into_result r1 = Some (JString ''first'') \<and> response_into_result r2 = Some (JString ''second''))
   })"

definition route_delivers_to_response_map_test :: bool where
  "route_delivers_to_response_map_test = test_passes (do {
     let server = new_endpoint; let client = new_endpoint;
     let (sender, server) = do_client_sender server;
     (task, server) \<leftarrow> spawn_request sender ''test'' None server;
     (m, client, server) \<leftarrow> await_next client server;
     req \<leftarrow> as_request m;
     let (routed, server) = do_route (Response (response_ok (req_id req) (JBool True))) server;
     assert_that (routed = ResponseRouted);
     (response, server) \<leftarrow> join_response task server;
     assert_that (resp_id response = Some (req_id req))
   })"

definition route_response_map_takes_priority_test :: bool where
  "route_response_map_takes_priority_test = test_passes (do {
     let server = new_endpoint; let client = new_endpoint;
     let (sender, server) = do_client_sender server;
     (task, server) \<leftarrow> spawn_request sender ''test'' None server;
     (m, client, server) \<leftarrow> await_next client server;
     req \<leftarrow> as_request m;
     let (outgoing_rx, server) = do_register_outgoing (req_id req) server;
     let (routed, server) = do_route (Response (response_ok (req_id req) (JString ''response-map''))) server;
     assert_that (routed = ResponseRouted \<and> outgoing_is_pending (outgoing (conn_queue (conn server))) (req_id req));
     (response, server) \<leftarrow> join_response task server;
     assert_that (response_result response = Some (JString ''response-map''))
   })"

definition client_sender_wraparound_does_not_reuse_pending_id_test :: bool where
  "client_sender_wraparound_does_not_reuse_pending_id_test = test_passes (do {
     let server = new_endpoint; let client = new_endpoint;
     let (sender, server) = do_client_sender server;
     let (started, w) = send_request_with_id ref_tokio sender (IntegerId 1) ''first'' None (env server);
     let server = server\<lparr>env := w\<rparr>;
     first_task \<leftarrow> (case started of Awaiting f \<Rightarrow> Some f | _ \<Rightarrow> None);
     (m, client, server) \<leftarrow> await_next client server;
     first_request \<leftarrow> as_request m;
     assert_that (req_id first_request = IntegerId 1);
     let server = server\<lparr>env := (env server)\<lparr>id_counters := (id_counters (env server))(cs_id_counter sender := i32_max)\<rparr>\<rparr>;
     (max_task, server) \<leftarrow> spawn_request sender ''max'' None server;
     (wrapped_task, server) \<leftarrow> spawn_request sender ''wrapped'' None server;
     (m, client, server) \<leftarrow> await_next client server;
     second_request \<leftarrow> as_request m;
     (m, client, server) \<leftarrow> await_next client server;
     third_request \<leftarrow> as_request m;
     assert_that (req_id second_request \<noteq> req_id first_request \<and> req_id third_request \<noteq> req_id first_request
       \<and> req_id second_request \<noteq> req_id third_request);
     let (routed, server) = do_route (Response (response_ok (req_id first_request) (JString ''first''))) server;
     assert_that (routed = ResponseRouted);
     let (routed, server) = do_route (Response (response_ok (req_id second_request) (JString ''second''))) server;
     assert_that (routed = ResponseRouted);
     let (routed, server) = do_route (Response (response_ok (req_id third_request) (JString ''third''))) server;
     assert_that (routed = ResponseRouted);
     (r1, server) \<leftarrow> join_response first_task server;
     (r2, server) \<leftarrow> join_response max_task server;
     (r3, server) \<leftarrow> join_response wrapped_task server;
     assert_that (map response_into_result [r1, r2, r3] = [Some (JString ''first''), Some (JString ''second''), Some (JString ''third'')])
   })"

definition response_map_cancel_ignores_unknown_id_test :: bool where
  "response_map_cancel_ignores_unknown_id_test =
     (let (m, w) = response_map_new new_world;
          (cancelled, w) = response_map_cancel ref_tokio m (IntegerId 404) w;
          (delivered, w) = response_map_deliver ref_tokio m (IntegerId 404) (ok_null 404) w
      in \<not> cancelled \<and> \<not> delivered)"

subsection \<open>The tests pass\<close>

lemma client_sender_message_tests_pass:
  "list_all id
     [client_sender_notify_sends_notification_test, client_sender_respond_sends_response_test,
      client_sender_request_auto_id_test, client_sender_request_gets_response_test,
      client_sender_concurrent_requests_test]"
  by code_simp

lemma client_sender_failure_tests_pass:
  "list_all id
     [client_sender_request_timeout_test, client_sender_request_disconnected_test,
      client_sender_notify_after_close_test, client_sender_request_timeout_does_not_swallow_late_response_test,
      client_sender_aborted_request_does_not_swallow_late_response_test,
      client_sender_timeout_preserves_other_pending_requests_test]"
  by code_simp

lemma client_sender_state_tests_pass:
  "list_all id
     [client_sender_multiple_clones_share_state_test, route_delivers_to_response_map_test,
      route_response_map_takes_priority_test, client_sender_wraparound_does_not_reuse_pending_id_test,
      response_map_cancel_ignores_unknown_id_test]"
  by code_simp

end
