(* ===== verification/Connection_Tests.thy ===== *)
theory Connection_Tests
  imports Duplex_Support
begin

text \<open>
  The unit tests of \<open>src/src/connection.rs\<close>: construction, the handshake, shutdown and exit. A
  spawned call of \<open>initialize_start\<close> or \<open>initialize_finish\<close> that awaits more messages is resumed
  by its loop when they have arrived.
\<close>

abbreviation int_request :: "i32 \<Rightarrow> string \<Rightarrow> json option \<Rightarrow> message" where
  "int_request n method params \<equiv> Request (request_new (int_id n) method params)"

abbreviation plain_notification :: "string \<Rightarrow> message" where
  "plain_notification method \<equiv> Notification (notification_new method None)"

subsection \<open>Construction and messages\<close>

definition connection_from_duplex_test :: bool where
  "connection_from_duplex_test = test_passes (do {
     let client = new_endpoint; let server = new_endpoint;
     client \<leftarrow> do_send (int_request 1 ''test'' None) client;
     (m, server, client) \<leftarrow> await_next server client;
     assert_that (is_request m);
     req \<leftarrow> as_request m;
     assert_that (req_method req = ''test'' \<and> req_id req = int_id 1)
   })"

definition connection_bidirectional_test :: bool where
  "connection_bidirectional_test = test_passes (do {
     let client = new_endpoint; let server = new_endpoint;
     client \<leftarrow> do_send (int_request 1 ''textDocument/hover'' (Some (json_object
       [(''textDocument'', json_object [(''uri'', JString ''file:///test.rs'')]),
        (''position'', json_object [(''line'', json_int 10), (''character'', json_int 5)])]))) client;
     (m, server, client) \<leftarrow> await_next server client;
     assert_that (is_request m);
     server \<leftarrow> do_send (Response (response_ok (int_id 1) (json_object [(''contents'', JString ''fn main()'')]))) server;
     (m, client, server) \<leftarrow> await_next client server;
     assert_that (is_response m);
     resp \<leftarrow> as_response m;
     assert_that (resp_id resp = Some (int_id 1) \<and> is_some (response_result resp))
   })"

definition connection_from_transport_test :: bool where
  "connection_from_transport_test = test_passes (do {
     let tr = transport (\<lambda>io codec. ()) ();
     let (c, w) = from_transport ref_tokio (\<lambda>_. ((), [])) tr new_world; let client = \<lparr>conn = c, env = w\<rparr>;
     let (c, w) = from_transport ref_tokio (\<lambda>_. ((), [])) tr new_world; let server = \<lparr>conn = c, env = w\<rparr>;
     client \<leftarrow> do_send (int_request 42 ''test'' None) client;
     (m, server, client) \<leftarrow> await_next server client;
     assert_that (is_request m);
     req \<leftarrow> as_request m;
     assert_that (req_id req = int_id 42)
   })"

definition connection_multiple_messages_test :: bool where
  "connection_multiple_messages_test = test_passes (do {
     let client = new_endpoint; let server = new_endpoint;
     client \<leftarrow> do_send (int_request 1 ''first'' None) client;
     client \<leftarrow> do_send (int_request 2 ''second'' None) client;
     client \<leftarrow> do_send (int_request 3 ''third'' None) client;
     (m1, server, client) \<leftarrow> await_next server client;
     (m2, server, client) \<leftarrow> await_next server client;
     (m3, server, client) \<leftarrow> await_next server client;
     r1 \<leftarrow> as_request m1;
     assert_that (req_method r1 = ''first'' \<and> req_id r1 = int_id 1);
     r2 \<leftarrow> as_request m2;
     assert_that (req_method r2 = ''second'' \<and> req_id r2 = int_id 2);
     r3 \<leftarrow> as_request m3;
     assert_that (req_method r3 = ''third'' \<and> req_id r3 = int_id 3)
   })"

definition sender_receiver_independent_test :: bool where
  "sender_receiver_independent_test = test_passes (do {
     let client = new_endpoint; let server = new_endpoint;
     client \<leftarrow> do_send (int_request 1 ''test'' None) client;
     (m, server, client) \<leftarrow> await_next server client;
     assert_that (is_request m)
   })"

definition connection_has_request_queue_test :: bool where
  "connection_has_request_queue_test =
     (let q = incoming (conn_queue (conn new_endpoint));
          (token, tw) = token_new ref_tokio (tokens (env new_endpoint));
          q = incoming_register q (int_id 1) token
      in incoming_is_pending q (int_id 1) \<and> fst (incoming_complete q (int_id 1)))"

definition connection_with_request_queue_test :: bool where
  "connection_with_request_queue_test =
     (let (token, tw) = token_new ref_tokio (tokens new_world);
          q = request_queue_new;
          q = q\<lparr>incoming := incoming_register (incoming q) (int_id 42) token\<rparr>;
          (c, w) = with_request_queue ref_tokio (\<lambda>_. ((), [])) (\<lambda>io codec. ()) () q (new_world\<lparr>tokens := tw\<rparr>)
      in incoming_is_pending (incoming (conn_queue c)) (int_id 42))"

definition connection_outgoing_request_queue_test :: bool where
  "connection_outgoing_request_queue_test =
     (let (rx, e) = do_register_outgoing (int_id 1) new_endpoint;
          q = outgoing (conn_queue (conn e));
          (completed, q', ow) = outgoing_complete ref_tokio q (int_id 1)
             (response_ok (int_id 1) (JString ''response data'')) (oneshots (env e));
          e = e\<lparr>env := (env e)\<lparr>oneshots := ow\<rparr>\<rparr>
      in outgoing_is_pending q (int_id 1) \<and> completed
         \<and> some_and (received rx e) (\<lambda>response.
             resp_id response = Some (int_id 1) \<and> response_result response = Some (JString ''response data'')))"

definition stdio_connection_alias_constructs_test :: bool where
  "stdio_connection_alias_constructs_test =
     (let (c, w) = connection_new ref_tokio (\<lambda>_. ((), [])) (\<lambda>io codec. ()) (stdio_new () ()) new_world
      in lifecycle_state c = Uninitialized \<and> \<not> incoming_is_pending (incoming (conn_queue c)) (int_id 1)
         \<and> \<not> outgoing_is_pending (outgoing (conn_queue c)) (int_id 1))"

lemma construction_tests_pass:
  "list_all id
     [connection_from_duplex_test, connection_bidirectional_test, connection_from_transport_test,
      connection_multiple_messages_test, sender_receiver_independent_test,
      connection_has_request_queue_test, connection_with_request_queue_test,
      connection_outgoing_request_queue_test, stdio_connection_alias_constructs_test]"
  by code_simp

subsection \<open>The handshake\<close>

text \<open>\<open>initialize_start().await.unwrap()\<close> and the two halves of a spawned \<open>initialize_finish\<close>.\<close>

definition do_initialize_start :: "endpoint \<Rightarrow> (request_id \<times> json \<times> endpoint) option" where
  "do_initialize_start e = do {
     let (r, c, w) = initialize_start ref_tokio (conn e) (env e);
     r \<leftarrow> ready r;
     (i, params) \<leftarrow> unwrap r;
     Some (i, params, \<lparr>conn = c, env = w\<rparr>)
   }"

definition spawn_initialize_finish :: "request_id \<Rightarrow> json \<Rightarrow> endpoint \<Rightarrow> endpoint option" where
  "spawn_initialize_finish i v e =
     (case initialize_finish ref_tokio (conn e) i v (env e) of
        (Pending, c, w) \<Rightarrow> Some \<lparr>conn = c, env = w\<rparr>
      | _ \<Rightarrow> None)"

definition join_initialize_finish :: "endpoint \<Rightarrow> ((protocol_error + unit) \<times> endpoint) option" where
  "join_initialize_finish e = do {
     let (r, c, w) = initialize_finish_loop ref_tokio (conn e) (receiver (conn e)) (env e);
     r \<leftarrow> ready r;
     Some (r, \<lparr>conn = c, env = w\<rparr>)
   }"

definition test_initialize_handshake :: bool where
  "test_initialize_handshake = test_passes (do {
     let client = new_endpoint; let server = new_endpoint;
     client \<leftarrow> do_send (int_request 1 ''initialize''
       (Some (json_object [(''processId'', json_int 1234), (''capabilities'', json_object [])]))) client;
     let (client, server) = transfer client server;
     (i, params, server) \<leftarrow> do_initialize_start server;
     assert_that (i = int_id 1 \<and> value_index params ''processId'' = json_int 1234
       \<and> lifecycle_state (conn server) = Initializing);
     server \<leftarrow> spawn_initialize_finish i
       (json_object [(''capabilities'', json_object [(''textDocumentSync'', json_int 1)])]) server;
     (m, client, server) \<leftarrow> await_next client server;
     assert_that (is_response m);
     resp \<leftarrow> as_response m;
     assert_that (resp_id resp = Some (int_id 1));
     result \<leftarrow> response_into_result resp;
     assert_that (value_index (value_index result ''capabilities'') ''textDocumentSync'' = json_int 1);
     client \<leftarrow> do_send (plain_notification ''initialized'') client;
     let (client, server) = transfer client server;
     (r, server) \<leftarrow> join_initialize_finish server;
     unwrap r;
     assert_that (is_running (conn server) \<and> lifecycle_state (conn server) = Running)
   })"

definition test_initialize_rejects_non_init_requests :: bool where
  "test_initialize_rejects_non_init_requests = test_passes (do {
     let client = new_endpoint; let server = new_endpoint;
     client \<leftarrow> do_send (int_request 1 ''textDocument/hover'' None) client;
     let (client, server) = transfer client server;
     let (r, c, w) = initialize_start ref_tokio (conn server) (env server);
     let server = \<lparr>conn = c, env = w\<rparr>;
     assert_that (r = Pending);
     (m, client, server) \<leftarrow> await_next client server;
     assert_that (is_response m);
     resp \<leftarrow> as_response m;
     assert_that (resp_id resp = Some (int_id 1));
     e \<leftarrow> response_into_error resp;
     assert_that (err_code e = error_code_to_i32 ServerNotInitialized);
     client \<leftarrow> do_send (int_request 2 ''initialize'' None) client;
     let (client, server) = transfer client server;
     (i, params, server) \<leftarrow> do_initialize_start server;
     assert_that (lifecycle_state (conn server) = Initializing)
   })"

text \<open>A server that has received \<open>initialize\<close>, and one that has completed the handshake.\<close>

definition started_server :: "(request_id \<times> endpoint \<times> endpoint) option" where
  "started_server = do {
     let client = new_endpoint; let server = new_endpoint;
     client \<leftarrow> do_send (int_request 1 ''initialize'' None) client;
     let (client, server) = transfer client server;
     (i, params, server) \<leftarrow> do_initialize_start server;
     Some (i, client, server)
   }"

definition running_server :: "(endpoint \<times> endpoint) option" where
  "running_server = do {
     (i, client, server) \<leftarrow> started_server;
     server \<leftarrow> spawn_initialize_finish i (json_object [(''capabilities'', json_object [])]) server;
     (m, client, server) \<leftarrow> await_next client server;
     client \<leftarrow> do_send (plain_notification ''initialized'') client;
     let (client, server) = transfer client server;
     (r, server) \<leftarrow> join_initialize_finish server;
     unwrap r;
     Some (client, server)
   }"

definition test_initialize_finish_times_out_without_initialized :: bool where
  "test_initialize_finish_times_out_without_initialized = test_passes (do {
     (i, client, server) \<leftarrow> started_server;
     server \<leftarrow> spawn_initialize_finish i (json_object [(''capabilities'', json_object [])]) server;
     (m, client, server) \<leftarrow> await_next client server;
     assert_that (is_response m);
     (r, server) \<leftarrow> join_initialize_finish (time_elapses server);
     assert_that (r = Inl InitializeTimeout)
   })"

definition test_initialize_drops_notifications :: bool where
  "test_initialize_drops_notifications = test_passes (do {
     let client = new_endpoint; let server = new_endpoint;
     client \<leftarrow> do_send (plain_notification ''textDocument/didOpen'') client;
     client \<leftarrow> do_send (int_request 1 ''initialize'' None) client;
     let (client, server) = transfer client server;
     (i, params, server) \<leftarrow> do_initialize_start server;
     assert_that (i = int_id 1 \<and> lifecycle_state (conn server) = Initializing)
   })"

definition test_exit_during_init_disconnects :: bool where
  "test_exit_during_init_disconnects = test_passes (do {
     let client = new_endpoint; let server = new_endpoint;
     client \<leftarrow> do_send (plain_notification ''exit'') client;
     let (client, server) = transfer client server;
     r \<leftarrow> ready (fst (initialize_start ref_tokio (conn server) (env server)));
     assert_that (r = Inl Disconnected)
   })"

lemma handshake_tests_pass:
  "list_all id
     [test_initialize_handshake, test_initialize_rejects_non_init_requests,
      test_initialize_finish_times_out_without_initialized, test_initialize_drops_notifications,
      test_exit_during_init_disconnects]"
  by code_simp

subsection \<open>Shutdown and exit\<close>

definition do_handle_shutdown :: "request_id \<Rightarrow> endpoint \<Rightarrow> endpoint option" where
  "do_handle_shutdown i e = do {
     let (r, c, w) = handle_shutdown ref_tokio (conn e) i (env e);
     unwrap r;
     Some \<lparr>conn = c, env = w\<rparr>
   }"

definition test_shutdown_then_exit :: bool where
  "test_shutdown_then_exit = test_passes (do {
     (client, server) \<leftarrow> running_server;
     assert_that (is_running (conn server));
     client \<leftarrow> do_send (int_request 2 ''shutdown'' None) client;
     (m, server, client) \<leftarrow> await_next server client;
     req \<leftarrow> as_request m;
     assert_that (req_method req = ''shutdown'');
     server \<leftarrow> do_handle_shutdown (req_id req) server;
     assert_that (is_shutting_down (conn server) \<and> token_cancelled (shutdown_token (conn server)) server);
     (m, client, server) \<leftarrow> await_next client server;
     resp \<leftarrow> as_response m;
     assert_that (resp_id resp = Some (int_id 2) \<and> response_result resp = Some JNull);
     let (exit_code, c) = handle_exit (conn server);
     assert_that (exit_code = ExitSuccess \<and> lifecycle_state c = Exited)
   })"

definition test_exit_without_shutdown :: bool where
  "test_exit_without_shutdown = test_passes (do {
     (client, server) \<leftarrow> running_server;
     assert_that (is_running (conn server));
     let (exit_code, c) = handle_exit (conn server);
     assert_that (exit_code = ExitError \<and> lifecycle_state c = Exited)
   })"

definition test_on_shutdown_future :: bool where
  "test_on_shutdown_future = test_passes (do {
     (client, server) \<leftarrow> running_server;
     let token = shutdown_token (conn server);
     client \<leftarrow> do_send (int_request 2 ''shutdown'' None) client;
     (m, server, client) \<leftarrow> await_next server client;
     req \<leftarrow> as_request m;
     server \<leftarrow> do_handle_shutdown (req_id req) server;
     assert_that (token_cancelled token server)
   })"

lemma shutdown_tests_pass:
  "list_all id [test_shutdown_then_exit, test_exit_without_shutdown, test_on_shutdown_future]"
  by code_simp

end
