(* ===== verification/Routing_Tests.thy ===== *)
theory Routing_Tests
  imports Connection_Tests
begin

text \<open>
  The unit tests of \<open>src/src/connection.rs\<close>: routing, cancellation, \<open>send_request\<close> and the client
  sender of a connection.
\<close>

subsection \<open>Routing\<close>

text \<open>A request that is routed, with its token.\<close>

definition do_route_request :: "request \<Rightarrow> endpoint \<Rightarrow> (request \<times> token \<times> endpoint) option" where
  "do_route_request req e =
     (case do_route (Request req) e of
        (IncomingRequest r t, e) \<Rightarrow> Some (r, t, e)
      | _ \<Rightarrow> None)"

definition in_queue :: "endpoint \<Rightarrow> incoming_requests" where
  "in_queue e = incoming (conn_queue (conn e))"

definition out_queue :: "endpoint \<Rightarrow> outgoing_requests" where
  "out_queue e = outgoing (conn_queue (conn e))"

definition route_request_returns_incoming_request_test :: bool where
  "route_request_returns_incoming_request_test = test_passes (do {
     (req, token, e) \<leftarrow> do_route_request
       (request_new (int_id 42) ''textDocument/hover'' (Some (json_object [(''line'', json_int 10)]))) new_endpoint;
     assert_that (req_id req = int_id 42 \<and> req_method req = ''textDocument/hover'' \<and> \<not> token_cancelled token e
       \<and> incoming_is_pending (in_queue e) (int_id 42))
   })"

definition route_notification_returns_incoming_notification_test :: bool where
  "route_notification_returns_incoming_notification_test =
     (case do_route (Notification (notification_new ''textDocument/didOpen''
         (Some (json_object [(''uri'', JString ''file:///test.rs'')])))) new_endpoint of
        (IncomingNotification notif, e) \<Rightarrow> notif_method notif = ''textDocument/didOpen''
      | _ \<Rightarrow> False)"

definition route_response_to_pending_outgoing_request_test :: bool where
  "route_response_to_pending_outgoing_request_test = test_passes (do {
     let (rx, e) = do_register_outgoing (int_id 42) new_endpoint;
     let (routed, e) = do_route (Response (response_ok (int_id 42) (json_object [(''result'', JString ''success'')]))) e;
     assert_that (routed = ResponseRouted);
     response \<leftarrow> received rx e;
     assert_that (resp_id response = Some (int_id 42));
     result \<leftarrow> response_into_result response;
     assert_that (value_index result ''result'' = JString ''success'')
   })"

definition route_response_for_unknown_id_returns_response_unknown_test :: bool where
  "route_response_for_unknown_id_returns_response_unknown_test =
     (case do_route (Response (response_ok (int_id 999) (json_object [(''unexpected'', JBool True)]))) new_endpoint of
        (ResponseUnknown resp, e) \<Rightarrow> resp_id resp = Some (int_id 999)
      | _ \<Rightarrow> False)"

definition route_response_with_null_id_returns_response_unknown_test :: bool where
  "route_response_with_null_id_returns_response_unknown_test =
     (case do_route (Response (response_parse_error (response_error_new ParseError ''Parse error''))) new_endpoint of
        (ResponseUnknown resp, e) \<Rightarrow> is_none (resp_id resp) \<and> is_some (response_error_of resp)
      | _ \<Rightarrow> False)"

definition route_response_with_string_id_test :: bool where
  "route_response_with_string_id_test = test_passes (do {
     let i = request_id_from_str ''request-abc'';
     let (rx, e) = do_register_outgoing i new_endpoint;
     let (routed, e) = do_route (Response (response_ok i JNull)) e;
     assert_that (routed = ResponseRouted);
     response \<leftarrow> received rx e;
     assert_that (resp_id response = Some (StringId ''request-abc''))
   })"

definition route_multiple_responses_to_different_requests_test :: bool where
  "route_multiple_responses_to_different_requests_test = test_passes (do {
     let (rx1, e) = do_register_outgoing (int_id 1) new_endpoint;
     let (rx2, e) = do_register_outgoing (int_id 2) e;
     let (rx3, e) = do_register_outgoing (int_id 3) e;
     let (result2, e) = do_route (Response (response_ok (int_id 2) (JString ''second''))) e;
     assert_that (result2 = ResponseRouted);
     let (result1, e) = do_route (Response (response_ok (int_id 1) (JString ''first''))) e;
     assert_that (result1 = ResponseRouted);
     let (result3, e) = do_route (Response (response_ok (int_id 3) (JString ''third''))) e;
     assert_that (result3 = ResponseRouted);
     resp1 \<leftarrow> received rx1 e;
     assert_that (response_into_result resp1 = Some (JString ''first''));
     resp2 \<leftarrow> received rx2 e;
     assert_that (response_into_result resp2 = Some (JString ''second''));
     resp3 \<leftarrow> received rx3 e;
     assert_that (response_into_result resp3 = Some (JString ''third''))
   })"

definition route_error_response_to_pending_request_test :: bool where
  "route_error_response_to_pending_request_test =
     (let (rx, e) = do_register_outgoing (int_id 42) new_endpoint
      in fst (do_route (Response (response_err (int_id 42) (response_error_new MethodNotFound ''Not found''))) e)
           = ResponseRouted)"

lemma connection_routing_tests_pass:
  "list_all id
     [route_request_returns_incoming_request_test, route_notification_returns_incoming_notification_test,
      route_response_to_pending_outgoing_request_test, route_response_for_unknown_id_returns_response_unknown_test,
      route_response_with_null_id_returns_response_unknown_test, route_response_with_string_id_test,
      route_multiple_responses_to_different_requests_test, route_error_response_to_pending_request_test]"
  by code_simp

subsection \<open>Cancellation of incoming requests\<close>

definition cancel_by_id :: "json \<Rightarrow> notification" where
  "cancel_by_id v = notification_new ''$/cancelRequest'' (Some (json_object [(''id'', v)]))"

definition handle_cancel_request_cancels_pending_test :: bool where
  "handle_cancel_request_cancels_pending_test = test_passes (do {
     (req, token, e) \<leftarrow> do_route_request (request_new (int_id 42) ''test'' None) new_endpoint;
     assert_that (\<not> token_cancelled token e);
     let (result, w) = handle_cancel_request ref_tokio (conn e) (cancel_by_id (json_int 42)) (env e);
     assert_that (result = Some True \<and> token_cancelled token (e\<lparr>env := w\<rparr>))
   })"

definition handle_cancel_request_unknown_id_returns_false_test :: bool where
  "handle_cancel_request_unknown_id_returns_false_test =
     (fst (handle_cancel_request ref_tokio (conn new_endpoint) (cancel_by_id (json_int 999)) (env new_endpoint))
        = Some False)"

definition handle_cancel_request_wrong_method_returns_none_test :: bool where
  "handle_cancel_request_wrong_method_returns_none_test =
     (fst (handle_cancel_request ref_tokio (conn new_endpoint) (notification_new ''textDocument/didOpen''
         (Some (json_object [(''uri'', JString ''file:///test.rs'')]))) (env new_endpoint)) = None)"

definition handle_cancel_request_malformed_params_returns_none_test :: bool where
  "handle_cancel_request_malformed_params_returns_none_test =
     (fst (handle_cancel_request ref_tokio (conn new_endpoint) (notification_new ''$/cancelRequest''
         (Some (json_object [(''other'', JString ''field'')]))) (env new_endpoint)) = None)"

definition route_cancel_request_returns_cancel_handled_and_cancels_pending_test :: bool where
  "route_cancel_request_returns_cancel_handled_and_cancels_pending_test = test_passes (do {
     (req, token, e) \<leftarrow> do_route_request (request_new (int_id 42) ''test'' None) new_endpoint;
     assert_that (\<not> token_cancelled token e);
     let (result, e) = do_route (Notification (cancel_by_id (json_int 42))) e;
     assert_that (result = CancelHandled \<and> token_cancelled token e)
   })"

definition route_cancel_request_unknown_id_still_returns_cancel_handled_test :: bool where
  "route_cancel_request_unknown_id_still_returns_cancel_handled_test =
     (fst (do_route (Notification (cancel_by_id (json_int 99))) new_endpoint) = CancelHandled)"

definition route_regular_notification_not_affected_test :: bool where
  "route_regular_notification_not_affected_test =
     incoming_is_notification (fst (do_route (plain_notification ''textDocument/didOpen'') new_endpoint))"

definition cancellation_propagates_to_spawned_handler_test :: bool where
  "cancellation_propagates_to_spawned_handler_test = test_passes (do {
     (req, token, e) \<leftarrow> do_route_request (request_new (int_id 1) ''test'' None) new_endpoint;
     let (_, tw) = incoming_cancel ref_tokio (in_queue e) (int_id 1) (tokens (env e));
     assert_that (is_cancelled ref_tokio token tw)
   })"

definition route_request_auto_registers_and_cancellation_works_test :: bool where
  "route_request_auto_registers_and_cancellation_works_test = test_passes (do {
     (req, token, e) \<leftarrow> do_route_request (request_new (int_id 42) ''test'' None) new_endpoint;
     assert_that (\<not> token_cancelled token e);
     let (was_cancelled, w) = cancel_incoming ref_tokio (conn e) (int_id 42) (env e);
     assert_that (was_cancelled \<and> token_cancelled token (e\<lparr>env := w\<rparr>))
   })"

lemma incoming_cancel_tests_pass:
  "list_all id
     [handle_cancel_request_cancels_pending_test, handle_cancel_request_unknown_id_returns_false_test,
      handle_cancel_request_wrong_method_returns_none_test, handle_cancel_request_malformed_params_returns_none_test,
      route_cancel_request_returns_cancel_handled_and_cancels_pending_test,
      route_cancel_request_unknown_id_still_returns_cancel_handled_test, route_regular_notification_not_affected_test,
      cancellation_propagates_to_spawned_handler_test, route_request_auto_registers_and_cancellation_works_test]"
  by code_simp

subsection \<open>Cancellation of outgoing requests\<close>

definition do_cancel :: "request_id \<Rightarrow> endpoint \<Rightarrow> (bool \<times> endpoint) option" where
  "do_cancel i e = do {
     let (r, c, w) = conn_cancel ref_tokio (conn e) i (env e);
     was_pending \<leftarrow> unwrap r;
     Some (was_pending, \<lparr>conn = c, env = w\<rparr>)
   }"

definition test_cancel_outgoing_request :: bool where
  "test_cancel_outgoing_request = test_passes (do {
     let server = new_endpoint;
     let (rx, client) = do_register_outgoing (int_id 42) new_endpoint;
     (was_pending, client) \<leftarrow> do_cancel (int_id 42) client;
     assert_that (was_pending \<and> \<not> outgoing_is_pending (out_queue client) (int_id 42));
     (m, server, client) \<leftarrow> await_next server client;
     assert_that (is_notification m);
     notif \<leftarrow> as_notification m;
     assert_that (notif_method notif = ''$/cancelRequest'');
     params \<leftarrow> notif_params notif;
     assert_that (value_index params ''id'' = json_int 42 \<and> poll_oneshot rx client = Rx_closed)
   })"

definition test_cancel_unknown_outgoing_request :: bool where
  "test_cancel_unknown_outgoing_request = test_passes (do {
     (was_pending, client) \<leftarrow> do_cancel (int_id 999) new_endpoint;
     assert_that (\<not> was_pending)
   })"

definition test_cancel_with_string_id :: bool where
  "test_cancel_with_string_id = test_passes (do {
     let server = new_endpoint; let i = request_id_from_str ''req-abc'';
     let (rx, client) = do_register_outgoing i new_endpoint;
     (was_pending, client) \<leftarrow> do_cancel i client;
     assert_that was_pending;
     (m, server, client) \<leftarrow> await_next server client;
     notif \<leftarrow> as_notification m;
     params \<leftarrow> notif_params notif;
     assert_that (value_index params ''id'' = JString ''req-abc'' \<and> poll_oneshot rx client = Rx_closed)
   })"

lemma outgoing_cancel_tests_pass:
  "list_all id [test_cancel_outgoing_request, test_cancel_unknown_outgoing_request, test_cancel_with_string_id]"
  by code_simp

subsection \<open>Requests that own the receiver\<close>

text \<open>A spawned \<open>send_request\<close> that awaits its response, and the await of its task.\<close>

definition spawn_send_request :: "request_id \<Rightarrow> string \<Rightarrow> json option \<Rightarrow> endpoint \<Rightarrow> endpoint option" where
  "spawn_send_request i method params e =
     (case send_request ref_tokio (conn e) i method params (env e) of
        (Pending, c, w) \<Rightarrow> Some \<lparr>conn = c, env = w\<rparr>
      | _ \<Rightarrow> None)"

definition join_send_request :: "request_id \<Rightarrow> endpoint \<Rightarrow> ((protocol_error + response) \<times> endpoint) option" where
  "join_send_request i e = do {
     let (r, c) = send_request_loop i (conn e) (receiver (conn e));
     r \<leftarrow> ready r;
     Some (r, e\<lparr>conn := c\<rparr>)
   }"

definition test_send_request_happy_path :: bool where
  "test_send_request_happy_path = test_passes (do {
     let server = new_endpoint; let client = new_endpoint;
     server \<leftarrow> spawn_send_request (int_id 1) ''client/registerCapability''
       (Some (json_object [(''registrations'', JArray [])])) server;
     (m, client, server) \<leftarrow> await_next client server;
     req \<leftarrow> as_request m;
     assert_that (req_method req = ''client/registerCapability'');
     client \<leftarrow> do_send (Response (response_ok (req_id req) JNull)) client;
     let (client, server) = transfer client server;
     (r, server) \<leftarrow> join_send_request (int_id 1) server;
     response \<leftarrow> unwrap r;
     assert_that (resp_id response = Some (int_id 1) \<and> response_result response = Some JNull)
   })"

definition test_send_request_timeout :: bool where
  "test_send_request_timeout = test_passes (do {
     server \<leftarrow> spawn_send_request (int_id 1) ''client/registerCapability'' None new_endpoint;
     (r, server) \<leftarrow> join_send_request (int_id 1) (time_elapses server);
     assert_that (r = Inl RequestTimeout)
   })"

definition test_send_request_disconnect :: bool where
  "test_send_request_disconnect = test_passes (do {
     let server = stream_ends new_endpoint;
     let (r, c, w) = send_request ref_tokio (conn server) (int_id 1) ''test'' None (env server);
     r \<leftarrow> ready r;
     assert_that (case r of Inl Disconnected \<Rightarrow> True | Inl (Io _) \<Rightarrow> True | _ \<Rightarrow> False)
   })"

definition test_send_request_discards_non_matching_messages :: bool where
  "test_send_request_discards_non_matching_messages = test_passes (do {
     let server = new_endpoint; let client = new_endpoint;
     server \<leftarrow> spawn_send_request (int_id 42) ''test/method'' None server;
     (m, client, server) \<leftarrow> await_next client server;
     assert_that (is_request m);
     client \<leftarrow> do_send (plain_notification ''textDocument/didOpen'') client;
     client \<leftarrow> do_send (Response (response_ok (int_id 999) (JString ''wrong''))) client;
     client \<leftarrow> do_send (Response (response_ok (int_id 42) (JString ''correct''))) client;
     let (client, server) = transfer client server;
     (r, server) \<leftarrow> join_send_request (int_id 42) server;
     response \<leftarrow> unwrap r;
     assert_that (resp_id response = Some (int_id 42) \<and> response_result response = Some (JString ''correct''))
   })"

definition test_send_request_with_error_response :: bool where
  "test_send_request_with_error_response = test_passes (do {
     let server = new_endpoint; let client = new_endpoint;
     server \<leftarrow> spawn_send_request (int_id 1) ''test'' None server;
     (m, client, server) \<leftarrow> await_next client server;
     req \<leftarrow> as_request m;
     client \<leftarrow> do_send (Response (response_err (req_id req) (response_error_new MethodNotFound ''Not supported''))) client;
     let (client, server) = transfer client server;
     (r, server) \<leftarrow> join_send_request (int_id 1) server;
     response \<leftarrow> unwrap r;
     assert_that (resp_id response = Some (int_id 1));
     e \<leftarrow> response_into_error response;
     assert_that (err_code e = error_code_to_i32 MethodNotFound)
   })"

definition test_send_request_with_string_id :: bool where
  "test_send_request_with_string_id = test_passes (do {
     let server = new_endpoint; let client = new_endpoint; let i = request_id_from_str ''req-abc'';
     server \<leftarrow> spawn_send_request i ''test'' None server;
     (m, client, server) \<leftarrow> await_next client server;
     req \<leftarrow> as_request m;
     assert_that (req_id req = StringId ''req-abc'');
     client \<leftarrow> do_send (Response (response_ok i (JString ''ok''))) client;
     let (client, server) = transfer client server;
     (r, server) \<leftarrow> join_send_request i server;
     response \<leftarrow> unwrap r;
     assert_that (resp_id response = Some (StringId ''req-abc''))
   })"

lemma send_request_tests_pass:
  "list_all id
     [test_send_request_happy_path, test_send_request_timeout, test_send_request_disconnect,
      test_send_request_discards_non_matching_messages, test_send_request_with_error_response,
      test_send_request_with_string_id]"
  by code_simp

subsection \<open>The client sender of a connection\<close>

definition client_sender_messages_arrive_on_receiver_test :: bool where
  "client_sender_messages_arrive_on_receiver_test = test_passes (do {
     let client = new_endpoint;
     let (sender, server) = do_client_sender new_endpoint;
     let (r, w) = notify ref_tokio sender ''window/logMessage''
       (Some (json_object [(''type'', json_int 3), (''message'', JString ''hello'')])) (env server);
     unwrap r;
     (m, client, server) \<leftarrow> await_next client (server\<lparr>env := w\<rparr>);
     notif \<leftarrow> as_notification m;
     params \<leftarrow> notif_params notif;
     assert_that (notif_method notif = ''window/logMessage'' \<and> value_index params ''message'' = JString ''hello'')
   })"

definition client_sender_request_routed_through_response_map_test :: bool where
  "client_sender_request_routed_through_response_map_test = test_passes (do {
     let client = new_endpoint;
     let (sender, server) = do_client_sender new_endpoint;
     (task, server) \<leftarrow> spawn_request sender ''client/registerCapability''
       (Some (json_object [(''registrations'', JArray [])])) server;
     (m, client, server) \<leftarrow> await_next client server;
     req \<leftarrow> as_request m;
     assert_that (req_method req = ''client/registerCapability'');
     client \<leftarrow> do_send (Response (response_ok (req_id req) JNull)) client;
     (m, server, client) \<leftarrow> await_next server client;
     let (routed, server) = do_route m server;
     assert_that (routed = ResponseRouted);
     (result, server) \<leftarrow> join_response task server;
     assert_that (resp_id result = Some (req_id req))
   })"

definition route_prefers_response_map_over_outgoing_queue_test :: bool where
  "route_prefers_response_map_over_outgoing_queue_test = test_passes (do {
     let (sender, server) = do_client_sender new_endpoint;
     let (outgoing_rx, server) = do_register_outgoing (int_id 1) server;
     (task, server) \<leftarrow> spawn_request sender ''test'' None server;
     let (routed, server) = do_route (Response (response_ok (int_id 1) (JString ''via-response-map''))) server;
     assert_that (routed = ResponseRouted);
     (resp, server) \<leftarrow> join_response task server;
     assert_that (response_result resp = Some (JString ''via-response-map'') \<and> is_none (received outgoing_rx server))
   })"

definition send_works_before_and_after_client_sender_test :: bool where
  "send_works_before_and_after_client_sender_test = test_passes (do {
     let client = new_endpoint;
     server \<leftarrow> do_send (plain_notification ''test/before'') new_endpoint;
     (m, client, server) \<leftarrow> await_next client server;
     notif \<leftarrow> as_notification m;
     assert_that (notif_method notif = ''test/before'')
   })"

definition send_works_after_client_sender_test :: bool where
  "send_works_after_client_sender_test = test_passes (do {
     let client = new_endpoint;
     let (sender, server) = do_client_sender new_endpoint;
     server \<leftarrow> do_send (plain_notification ''test/ping'') server;
     (m, client, server) \<leftarrow> await_next client server;
     notif \<leftarrow> as_notification m;
     assert_that (notif_method notif = ''test/ping'')
   })"

lemma connection_sender_tests_pass:
  "list_all id
     [client_sender_messages_arrive_on_receiver_test, client_sender_request_routed_through_response_map_test,
      route_prefers_response_map_over_outgoing_queue_test, send_works_before_and_after_client_sender_test,
      send_works_after_client_sender_test]"
  by code_simp

end
