(* ===== verification/Formatter_Tests.thy ===== *)
theory Formatter_Tests
  imports Formatter_Server Duplex_Support
begin

text \<open>
  The unit tests of \<open>src/examples/formatter_server.rs\<close>, with the reference implementation of the
  functions of \<open>lsp_types\<close> and of \<open>str::to_uppercase\<close> on ASCII.
\<close>

definition offset_at :: "string \<Rightarrow> nat \<Rightarrow> nat \<Rightarrow> nat option" where
  "offset_at s l c = position_to_offset s \<lparr>line = l, character = c\<rparr>"

definition test_position_to_offset_single_line :: bool where
  "test_position_to_offset_single_line =
     (let s = ''hello world''
      in offset_at s 0 0 = Some 0 \<and> offset_at s 0 5 = Some 5 \<and> offset_at s 0 11 = Some 11)"

definition test_position_to_offset_multi_line :: bool where
  "test_position_to_offset_multi_line =
     (let s = ''line1'' @ [LF] @ ''line2'' @ [LF] @ ''line3''
      in offset_at s 0 0 = Some 0 \<and> offset_at s 1 0 = Some 6 \<and> offset_at s 2 0 = Some 12
         \<and> offset_at s 2 5 = Some 17)"

definition test_position_to_offset_beyond_content :: bool where
  "test_position_to_offset_beyond_content =
     (let s = ''short'' in offset_at s 0 100 = Some 5 \<and> offset_at s 10 0 = Some 5)"

definition test_create_uppercase_edit_empty :: bool where
  "test_create_uppercase_edit_empty = some_and (create_uppercase_edit ref_api []) (\<lambda>edits. edits = [])"

definition test_create_uppercase_edit_single_line :: bool where
  "test_create_uppercase_edit_single_line = test_passes (do {
     edits \<leftarrow> create_uppercase_edit ref_api ''hello world'';
     case edits of
       [e] \<Rightarrow> assert_that (new_text e = ''HELLO WORLD''
         \<and> line (range_start (edit_range e)) = 0 \<and> character (range_start (edit_range e)) = 0
         \<and> line (range_end (edit_range e)) = 0 \<and> character (range_end (edit_range e)) = 11)
     | _ \<Rightarrow> None
   })"

definition test_create_uppercase_edit_multi_line :: bool where
  "test_create_uppercase_edit_multi_line = test_passes (do {
     edits \<leftarrow> create_uppercase_edit ref_api (''line1'' @ [LF] @ ''line2'');
     case edits of
       [e] \<Rightarrow> assert_that (new_text e = ''LINE1'' @ [LF] @ ''LINE2''
         \<and> line (range_end (edit_range e)) = 1 \<and> character (range_end (edit_range e)) = 5)
     | _ \<Rightarrow> None
   })"

definition changed_content :: "string \<Rightarrow> range option \<Rightarrow> string \<Rightarrow> string option" where
  "changed_content old rg s =
     map_option content (apply_incremental_changes \<lparr>content = old, version = 1\<rparr> [\<lparr>change_range = rg, change_text = s\<rparr>])"

definition test_apply_incremental_changes_full_sync :: bool where
  "test_apply_incremental_changes_full_sync = (changed_content ''original'' None ''replaced'' = Some ''replaced'')"

definition test_apply_incremental_changes_partial :: bool where
  "test_apply_incremental_changes_partial =
     (changed_content ''hello world''
        (Some \<lparr>range_start = \<lparr>line = 0, character = 6\<rparr>, range_end = \<lparr>line = 0, character = 11\<rparr>\<rparr>) ''rust''
      = Some ''hello rust'')"

definition test_apply_incremental_changes_insert :: bool where
  "test_apply_incremental_changes_insert =
     (changed_content ''hello''
        (Some \<lparr>range_start = \<lparr>line = 0, character = 5\<rparr>, range_end = \<lparr>line = 0, character = 5\<rparr>\<rparr>) '' world''
      = Some ''hello world'')"

lemma formatter_tests_pass:
  "list_all id
     [test_position_to_offset_single_line, test_position_to_offset_multi_line, test_position_to_offset_beyond_content,
      test_create_uppercase_edit_empty, test_create_uppercase_edit_single_line, test_create_uppercase_edit_multi_line,
      test_apply_incremental_changes_full_sync, test_apply_incremental_changes_partial,
      test_apply_incremental_changes_insert]"
  by code_simp

end
