(* ===== verification/Spec2Isabelle.thy ===== *)
theory Spec2Isabelle
  imports Server_Session Connection_Spec Basic_Tests Message_Tests Queue_Tests Transport_Tests Client_Sender_Tests
    Routing_Tests Formatter_Tests
begin

text \<open>
  \<^bold>\<open>lsp-server-tokio\<close>: a verification library for the crate under \<open>src/src\<close> and its example server
  \<open>src/examples/formatter_server.rs\<close>.

  \<^bold>\<open>The program.\<close> The crate is the transport and connection layer of a language server. Bytes arrive
  on a stream and are cut into frames by the codec (\<open>codec.rs\<close>); a frame holds a JSON document, which
  is read as a request, a response or a notification (\<open>message.rs\<close>, \<open>request_id.rs\<close>, \<open>error.rs\<close>). A
  connection (\<open>connection.rs\<close>) owns the receiving half of the stream, a lifecycle state
  (\<open>lifecycle.rs\<close>), a shutdown token and the trackers of pending requests (\<open>request_queue.rs\<close>); it
  classifies incoming messages (\<open>routing.rs\<close>), cancels requests, and performs the initialization
  handshake, shutdown and exit. Everything that is sent goes through one unbounded channel to a
  drain task that writes to the stream. Client senders (\<open>client_sender.rs\<close>) are handles that other
  tasks use to notify, to respond and to send requests of their own; they share a map from request
  ids to the oneshot senders of the waiting tasks. The example server puts all of this together.

  \<^bold>\<open>How it is modelled.\<close> Pure code is functions. A Rust \<open>Result\<close> is a sum with \<open>Inl\<close> for \<open>Err\<close>, a
  panic is \<open>None\<close> (or the constructor \<open>Panicked\<close>), an \<open>i32\<close> is a \<open>32 word\<close>, strings and byte slices are
  lists of bytes, and a \<open>HashMap\<close> is a map. What the source shares through \<open>Arc\<close> lives in a record
  \<open>world\<close> and is addressed by references, so that clones of a handle alias. An asynchronous function
  runs to its first suspension; a future that has not completed is \<open>Pending\<close>, and polling it is a
  function. The stream of a connection is the list of events it is going to give (a message, an
  I/O error, the end, the expiry of a running timer). The concurrency of tasks is a step relation:
  one step is one call of the interface, one atomic step of a task that holds a client sender, one
  run of the drain task, or the arrival of input.

  \<^bold>\<open>Parameters.\<close> Code outside \<open>src\<close> is an argument of the definitions, with its documented
  behaviour as the assumptions of a locale: cancellation tokens, oneshot channels and the unbounded
  channel of tokio (theory \<open>Tokio_Api\<close>: the laws a sender needs, those of the drain task, and those of
  a channel that remembers what was sent; two concrete runtimes on which they are interpreted), the
  JSON text functions of \<open>serde_json\<close> (\<open>parse\<close> and \<open>print\<close>, with the condition that the text of a
  given document parses back to it; \<open>Json_Text\<close> has a concrete reader and writer and shows that they
  have the property for all documents without floating point numbers), the framed transport and the duplex pipe, and for
  the example the parsers and printers of \<open>lsp_types\<close> and the Unicode upper-case mapping (record
  \<open>lsp_api\<close>). Serialisation and deserialisation between documents and messages is code of the crate
  (hand-written or derived) and is modelled: \<open>Serde_Json\<close> has the documents and the derived visitors.

  \<^bold>\<open>The theories.\<close>

  \<^item> \<open>Lsp_Prelude\<close>, \<open>Rust_Std\<close>: the types and the parts of the standard library that the source uses
    (number parsing and printing, UTF-8 validity, trimming, windows).
  \<^item> \<open>Serde_Json\<close>, \<open>Request_Id\<close>, \<open>Rpc_Error\<close>, \<open>Rpc_Message\<close>: documents, ids, error objects and the
    three message kinds with their serialisers. Shown: round trips, which object is read as which
    message, that whatever is read is well-formed and canonical, and that a request with an id that
    is no i32 and no string is read as a notification.
  \<^item> \<open>Lsp_Codec\<close>: \<open>decode\<close> and \<open>encode\<close> on byte buffers. The locale of streaming decoders says that
    later bytes never change what was decoded; interpreted on \<open>decode\<close> it gives that the cuts between
    chunks do not matter. Shown: encoded messages decode to themselves, decoding a buffer
    terminates (the measure is the number of bytes left, plus one while a length is known), a bad body
    is skipped, a bad header is never consumed.
  \<^item> \<open>Tokio_Api\<close>, \<open>Request_Queue\<close>, \<open>Transport\<close>, \<open>Routing\<close>, \<open>Lifecycle\<close>: the primitives, the two
    trackers (a locale of request trackers with three interpretations), the factories, the
    classification and the lifecycle tables.
  \<^item> \<open>Client_Sender\<close>: response map, clean-up guard, request futures. The loop that reserves an id is
    bounded by the 1000 retries of the source; ids are an i32 that cycles through 1 to \<open>i32::MAX\<close>.
    Shown: which id is taken, that an interleaving of other tasks cannot keep a response from its
    request, that a failed request leaves nothing behind, and how two handles can disturb each other.
  \<^item> \<open>Connection\<close>, \<open>Handshake\<close>: every method of the connection. The locale of waiting loops gives the
    three loops (\<open>initialize_start\<close>, \<open>initialize_finish\<close>, \<open>send_request\<close>) in closed form; they recurse on
    the events that are to come, so none of them needs fuel. An invariant over all steps gives the
    properties of cancellation, shutdown and routing.
  \<^item> \<open>Simulation\<close>, \<open>Connection_Spec\<close>: runs and forward simulation, an abstract machine for what a
    connection promises, and the proof that every step of the connection is a run of that machine.
    What the machine never takes back (shutdown, cancelled requests, settled receivers) is proved
    on it and carries over: no waiting receiver is ever lost, and the drain task and the channel fail
    together.
  \<^item> \<open>Text_Positions\<close>, \<open>Formatter_Server\<close>, \<open>Server_Session\<close>: the example. Positions count UTF-16 units
    and lines in naturals: the source's counters are \<open>u32\<close> and bounded by the length of the document,
    which is shown. Shown: edits and changes never panic and do what they say, every request is
    answered exactly once, the exit code, that cancellation has no effect on formatting, and a whole
    session from the bytes written to the bytes read.
  \<^item> \<open>Json_Text\<close>: the reference reader and writer of JSON text, for the witnesses and the tests. The
    reader has fuel, the length of its input, which is shown to be enough for every text of the writer.
  \<^item> \<open>Test_Support\<close>, \<open>Duplex_Support\<close>, \<open>Basic_Tests\<close>, \<open>Message_Tests\<close>, \<open>Queue_Tests\<close>, \<open>Codec_Tests\<close>,
    \<open>Transport_Tests\<close>, \<open>Client_Sender_Tests\<close>, \<open>Connection_Tests\<close>, \<open>Routing_Tests\<close>, \<open>Formatter_Tests\<close>:
    the unit tests of the crate and of the example as closed terms over the model, each shown to hold
    by evaluation on the reference runtime and the reference JSON text. They tie the definitions
    to the behaviour that the authors of the source assert.
  \<^item> this theory: the exchange of a request and its response between two connections over the wire.

  \<^bold>\<open>Interaction.\<close> A message travels from \<open>conn_send\<close>, \<open>notify\<close>, \<open>respond\<close> or \<open>request\<close> to the queue,
  by \<open>drain_task\<close> and \<open>encode\<close> to the bytes, by \<open>decode\<close> to the receiver of the other side, and by \<open>route\<close>
  to its handler or to the task that waits for it. Every link of this chain has its own lemmas,
  and the theorems of the last two items compose them.

  \<^bold>\<open>Not modelled.\<close> \<open>lib.rs\<close> (re-exports and documentation), the end-to-end tests and their client, which
  start the example as a process, the unit tests that assert nothing at run time, and the type
  aliases. The serialised form of \<open>server_capabilities\<close> is a parameter, as it is code of \<open>lsp_types\<close>.
  The polling of tasks by the runtime is left out beyond the random order of \<open>select!\<close>; times are
  events, not durations. What happens during the sleep of the example's formatting handler is a
  parameter; the theorems about answers require that nobody else sends in that time (\<open>quiet\<close>), while
  the drain task may run.
\<close>

subsection \<open>From the wire to the waiting request\<close>

lemma senders_ok_response_map:
  assumes "senders_ok tk opened (filed c w) (oneshots w)" and "conn_response_map c = Some m"
  shows "senders_ok tk opened (response_maps w m) (oneshots w)"
proof -
  have filed: "response_maps w m i = filed c w (Inr i)" for i
    using assms(2) by simp
  have "inj_on (response_maps w m) (dom (response_maps w m))"
  proof (rule inj_onI)
    fix i j assume "i \<in> dom (response_maps w m)" "j \<in> dom (response_maps w m)" "response_maps w m i = response_maps w m j"
    then have "(Inr i :: request_id + request_id) = Inr j"
      using assms(1) unfolding senders_ok_def filed by (intro inj_onD [of "filed c w" "dom (filed c w)"]) (auto simp: dom_def filed)
    then show "i = j"
      by simp
  qed
  then show ?thesis
    using assms(1) unfolding senders_ok_def filed by blast
qed

lemma route_to_response_map:
  assumes "conn_response_map c = Some m" and "resp_id r = Some i" and "response_maps w m i \<noteq> None"
    and "route tk c (Response r) w = (x, c', w')"
  shows "x = ResponseRouted \<and> response_map_deliver tk m i r w = (True, w')"
  using assms by (auto simp: route_response_def response_map_contains_def response_map_deliver_def)

text \<open>Once a request waits under its id, a routed response with that id is what its next poll returns.\<close>

lemma routed_response_completes:
  assumes "tokio_runtime tk known descends opened queued live" and "conn_inv tk known descends opened (c, w, hs)"
    and "conn_response_map c = Some (cs_response_map s)" and "counter_ok s w"
    and "request tk s method params w = (Some (Awaiting f), w2)"
    and "guard_id (fut_guard f) = Some i" and "Some i \<notin> removes ` set ops" and "resp_id r = Some i"
    and "response_maps w3 = response_maps w2" and "oneshots w3 = oneshots w2"
    and "route tk c (Response r) (client_run tk (cs_response_map s) ops w3) = (x, c', w4)"
    and "rx_first \<or> \<not> is_cancelled tk (fut_alive f) (tokens w4)"
  shows "x = ResponseRouted \<and> poll_request tk rx_first f w4 = Ready (Inr r, w4)"
proof -
  let ?m = "cs_response_map s" and ?w = "client_run tk (cs_response_map s) ops w3"
  note os = tokio_runtime.axioms(2) [OF assms(1)]
  have "senders_ok tk opened (response_maps w ?m) (oneshots w)"
    using senders_ok_response_map assms(2,3) by (auto simp: conn_inv_def)
  then have start: "senders_ok tk opened (response_maps w3 ?m) (oneshots w3)" "response_maps w3 ?m i = Some (fut_rx f)"
    using oneshot_channels.request_awaiting [OF os _ assms(4,5)] assms(6,9,10) by (auto simp: guard_new_def)
  then have run: "senders_ok tk opened (response_maps ?w ?m) (oneshots ?w)" "response_maps ?w ?m i = Some (fut_rx f)"
    using oneshot_channels.client_run_effect [OF os, of w3 ?m ops i "fut_rx f"] assms(7) by auto
  have routed: "x = ResponseRouted \<and> response_map_deliver tk ?m i r ?w = (True, w4)"
    using route_to_response_map [OF assms(3,8) _ assms(11)] run(2) by simp
  have "oneshot_poll tk (fut_rx f) (oneshots w4) = Rx_value r"
    using oneshot_channels.deliver_effect [OF os run(1) routed [THEN conjunct2]] run(2) by simp
  then have "poll_request tk rx_first f w4 = Ready (Inr r, w4)"
    using poll_request_value assms(12) by blast
  with routed show ?thesis
    by blast
qed

text \<open>
  C1. End to end: a request that a client sender has started on any reachable connection gets the
  response that the peer writes for its id. Whatever chunks the bytes of the encoded response
  arrive in, and whatever other tasks do with other ids in the meantime, the decoder yields that
  response, \<open>route\<close> delivers it, and the next poll of the request returns it.
\<close>

theorem wire_response_reaches_request:
  assumes "tokio_runtime tk known descends opened queued live"
    and "connection_new tk split framed_new io w0 = (c0, w1)" and "conn_reach tk (c0, w1, []) (c, w, hs)"
    and "conn_response_map c = Some (cs_response_map s)" and "counter_ok s w"
    and "request tk s method params w = (Some (Awaiting f), w2)"
    and "guard_id (fut_guard f) = Some i" and "Some i \<notin> removes ` set ops"
    and "resp_id r = Some i" and "message_wf (Response r)" and "json_text_faithful parse print (Response r)"
    and "concat chunks = encode_all print [Response r] []" and "chunks \<noteq> []"
    and "route tk c (message_canon (Response r)) (client_run tk (cs_response_map s) ops w2) = (x, c', w3)"
    and "rx_first \<or> \<not> is_cancelled tk (fut_alive f) (tokens w3)"
  shows "feeds (decode parse) codec_new [] chunks [message_canon (Response r)] codec_new []
    \<and> x = ResponseRouted
    \<and> poll_request tk rx_first f w3 = Ready (Inr (r\<lparr>resp_body := response_body_canon (resp_body r)\<rparr>), w3)"
proof -
  let ?r = "r\<lparr>resp_body := response_body_canon (resp_body r)\<rparr>"
  have "conn_inv tk known descends opened (c, w, hs)"
    using tokio_runtime.fresh_connection_inv [OF assms(1-3)] .
  then have "x = ResponseRouted \<and> poll_request tk rx_first f w3 = Ready (Inr ?r, w3)"
    using routed_response_completes [where r = ?r, OF assms(1) _ assms(4-8) _ refl refl] assms(9,14,15) by simp
  moreover have "feeds (decode parse) codec_new [] chunks (map message_canon [Response r]) codec_new []"
    using encoded_stream_reads [of "[Response r]" parse print, OF _ assms(12,13)] assms(10,11) by simp
  ultimately show ?thesis
    by simp
qed

text \<open>A request and a response, and the reference connection with its first client sender.\<close>

definition ref_response :: message where
  "ref_response = Response (response_ok (IntegerId 1) JNull)"

definition ref_request :: message where
  "ref_request = Request (request_new (IntegerId 1) ''m'' None)"

lemma ref_messages_ok:
  "message_wf ref_request \<and> json_text_faithful json_read json_write ref_request \<and> message_canon ref_request = ref_request"
  "message_wf ref_response \<and> json_text_faithful json_read json_write ref_response \<and> message_canon ref_response = ref_response"
proof -
  have "json_text_faithful json_read json_write m"
    if "plain_json (message_serialize m) \<and> length (json_text (message_serialize m)) < 100" for m
    using that by (intro json_ref.message_text_faithful) (auto simp: json_write_def usize_max_def split: if_splits)
  moreover have "plain_json (message_serialize ref_request) \<and> length (json_text (message_serialize ref_request)) < 100"
    "plain_json (message_serialize ref_response) \<and> length (json_text (message_serialize ref_response)) < 100"
    by code_simp+
  ultimately show "message_wf ref_request \<and> json_text_faithful json_read json_write ref_request \<and> message_canon ref_request = ref_request"
    "message_wf ref_response \<and> json_text_faithful json_read json_write ref_response \<and> message_canon ref_response = ref_response"
    by (auto simp: ref_request_def ref_response_def request_new_def response_ok_def opt_value_wf_def)
qed

definition ref_conn2 :: connection where
  "ref_conn2 = ref_conn\<lparr>conn_response_map := Some 2\<rparr>"

definition ref_sender2 :: client_sender where
  "ref_sender2 = \<lparr>cs_response_map = 2, cs_id_counter = 3, cs_drain_alive = 1\<rparr>"

definition ref_world2 :: "(ref_tokens, oneshot_result list, message list \<times> bool) world" where
  "ref_world2 = snd (snd (conn_client_sender ref_conn ref_conn_world))"

lemma ref_client_sender: "conn_client_sender ref_conn ref_conn_world = (ref_sender2, ref_conn2, ref_world2)"
  by (simp add: ref_world2_def ref_conn2_def ref_sender2_def conn_client_sender_def response_map_new_def
      client_sender_new_def ref_conn_def ref_conn_world_def ref_world_def)

theorem wire_response_reaches_request_witness:
  "feeds (decode json_read) codec_new [] [take 5 (encode_all json_write [ref_response] []),
     drop 5 (encode_all json_write [ref_response] [])] [ref_response] codec_new []"
proof -
  have reach: "conn_reach ref_tokio (ref_conn, ref_conn_world, []) (ref_conn2, ref_world2, [])"
    using reach_step [OF reach_refl Sender [OF ref_client_sender]] .
  have s: "conn_response_map ref_conn2 = Some (cs_response_map ref_sender2)" "counter_ok ref_sender2 ref_world2"
    using client_sender_shape [OF ref_client_sender] by blast+
  have "id_counters ref_world2 (cs_id_counter ref_sender2) = 1" "outbound ref_world2 = ([], True)"
    "response_maps ref_world2 (cs_response_map ref_sender2) (IntegerId 1) = None"
    by (simp_all add: ref_world2_def ref_sender2_def conn_client_sender_def response_map_new_def
        client_sender_new_def ref_conn_def ref_conn_world_def ref_world_def)
  then obtain f w2 where f: "request ref_tokio ref_sender2 ''m'' None ref_world2 = (Some (Awaiting f), w2)"
    "guard_id (fut_guard f) = Some (IntegerId 1)"
    using request_first_id [of ref_world2 ref_sender2 "[]" "''m''" None] by (auto simp: guard_new_def)
  have json: "json_text_faithful json_read json_write (Response (response_ok (IntegerId 1) JNull))"
    using ref_messages_ok(2) by (simp add: ref_response_def)
  have wf: "message_wf (Response (response_ok (IntegerId 1) JNull))" "resp_id (response_ok (IntegerId 1) JNull) = Some (IntegerId 1)"
    by (simp_all add: response_ok_def)
  have "feeds (decode json_read) codec_new [] [take 5 (encode_all json_write [ref_response] []),
     drop 5 (encode_all json_write [ref_response] [])] [message_canon (Response (response_ok (IntegerId 1) JNull))] codec_new []"
    by (rule wire_response_reaches_request [OF ref_rt.tokio_runtime_axioms ref_new reach s f(1) f(2) _ wf(2,1) json,
          where ops = "[]" and rx_first = True, OF _ _ _ triple_collapse, THEN conjunct1])
      (simp_all add: ref_response_def)
  then show ?thesis
    by (simp add: ref_response_def response_ok_def)
qed

subsection \<open>A request between two connections\<close>

context outbound_channel
begin

lemma request_queued:
  assumes "counter_ok s w" and "request tk s method params w = (Some (Awaiting f), w')" and "guard_id (fut_guard f) = Some i"
  shows "live (outbound w) \<and> queued (outbound w') = queued (outbound w) @ [Request (request_new i method params)]"
  using assms(1,2)
proof (cases rule: request_cases)
  case (2 j h w1 r1)
  have "outbound w1 = outbound w"
    using reserve_loop_frame [OF assms(1)] 2(1) by (simp add: reserve_request_slot_def)
  moreover from 2(3) have "outbound_send tk (Request (request_new j method params)) w1 = (True, w') \<and> j = i"
    by (cases rule: send_registered_cases) (use 2(4) assms(3) in \<open>simp_all add: guard_new_def\<close>)
  ultimately show ?thesis
    using send_live [of "outbound w"] send_dead [of "outbound w"]
    by (cases "live (outbound w)") (auto simp: outbound_send_def split: prod.splits)
qed simp

lemma respond_queued:
  assumes "respond tk s r w = (Inr x, w')"
  shows "queued (outbound w') = queued (outbound w) @ [Response r]"
  using assms send_live [of "outbound w"] send_dead [of "outbound w"]
  by (cases "live (outbound w)") (auto simp: respond_def outbound_send_def split: prod.splits if_splits)

text \<open>A drain task that has written the whole queue, and what the peer reads of it.\<close>

lemma drained_stream_reads:
  assumes "drain_task tk alive gone rs w = (sent, False, w')" and "queued (outbound w') = []"
    and "\<forall>m\<in>set sent. message_wf m \<and> json_text_faithful parse print m"
    and "concat chunks = encode_all print sent []" and "chunks \<noteq> []"
    and "feeds (decode parse) codec_new [] chunks inbox d b"
  shows "sent = queued (outbound w) \<and> inbox = map message_canon (queued (outbound w))"
  using drain_task_order [OF assms(1)] assms(2) encoded_stream_reads [OF assms(3-5)] assms(6) by simp

end

text \<open>
  C2. A request between two connections, there and back over the wire: a client sender starts a
  request, the drain task writes the queue, and the peer decodes the bytes, in chunks of any size,
  to messages of which the last is that request, with the method and the parameters of the call;
  the peer answers the id it sees; the first side decodes what the peer's drain task has written,
  routes the last message, whatever its other tasks have done under other ids, and the next poll of
  the request returns the peer's answer.
\<close>

theorem request_answered_by_peer:
  assumes "tokio_runtime tk known descends opened queued live"
    and "connection_new tk split framed_new io w0 = (c0, w1)" and "conn_reach tk (c0, w1, []) (c, w, hs)"
    and "conn_response_map c = Some (cs_response_map s)" and "counter_ok s w"
    and "request tk s method params w = (Some (Awaiting f), w2)"
    and "drain_task tk (conn_drain_alive c) gone rs w2 = (sent, False, w3)" and "queued (outbound w3) = []"
    and "\<forall>m\<in>set sent. message_wf m \<and> json_text_faithful parse print m"
    and "concat chunks = encode_all print sent []" and "chunks \<noteq> []"
    and "feeds (decode parse) codec_new [] chunks peer_inbox d b"
    and "route tk pc (last peer_inbox) pw = (IncomingRequest req t, pc', pw1)"
    and "respond tk ps (response_ok (req_id req) v) pw1 = (Inr y, pw2)"
    and "drain_task tk (conn_drain_alive pc') pgone prs pw2 = (psent, False, pw3)" and "queued (outbound pw3) = []"
    and "\<forall>m\<in>set psent. message_wf m \<and> json_text_faithful parse print m"
    and "concat pchunks = encode_all print psent []" and "pchunks \<noteq> []"
    and "feeds (decode parse) codec_new [] pchunks inbox d' b'"
    and "guard_id (fut_guard f) \<notin> removes ` set ops"
    and "route tk c (last inbox) (client_run tk (cs_response_map s) ops w3) = (x, c', w4)"
    and "rx_first \<or> \<not> is_cancelled tk (fut_alive f) (tokens w4)"
  shows "req_method req = method \<and> req_params req = drop_null params \<and> guard_id (fut_guard f) = Some (req_id req)
    \<and> x = ResponseRouted \<and> poll_request tk rx_first f w4 = Ready (Inr (response_ok (req_id req) v), w4)"
proof -
  note oc = tokio_runtime.axioms(3) [OF assms(1)] and os = tokio_runtime.axioms(2) [OF assms(1)]
  have inv: "conn_inv tk known descends opened (c, w, hs)"
    using tokio_runtime.fresh_connection_inv [OF assms(1-3)] .
  then have "senders_ok tk opened (response_maps w (cs_response_map s)) (oneshots w)"
    using senders_ok_response_map assms(4) by (auto simp: conn_inv_def)
  then obtain i where i: "guard_id (fut_guard f) = Some i"
    using oneshot_channels.request_awaiting [OF os _ assms(5,6)] by (auto simp: guard_new_def)
  have "last peer_inbox = message_canon (Request (request_new i method params))"
    using outbound_channel.drained_stream_reads [OF oc assms(7-12)] outbound_channel.request_queued [OF oc assms(5,6) i] by simp
  then have req: "req_id req = i" "req_method req = method" "req_params req = drop_null params"
    using assms(13) by (auto simp: request_new_def route_request_def Let_def split: prod.splits)
  have "last inbox = Response (response_ok i v)"
    using outbound_channel.drained_stream_reads [OF oc assms(15-20)] outbound_channel.respond_queued [OF oc assms(14)] req(1)
    by (simp add: response_ok_def)
  then have reply: "Some i \<notin> removes ` set ops" "resp_id (response_ok i v) = Some i"
    "response_maps w3 = response_maps w2" "oneshots w3 = oneshots w2"
    "route tk c (Response (response_ok i v)) (client_run tk (cs_response_map s) ops w3) = (x, c', w4)"
    using drain_task_frame [OF assms(7)] assms(21,22) i by (simp_all add: response_ok_def)
  have "x = ResponseRouted \<and> poll_request tk rx_first f w4 = Ready (Inr (response_ok i v), w4)"
    by (rule routed_response_completes [OF assms(1) inv assms(4-6) i reply assms(23)])
  then show ?thesis
    using req i by simp
qed

lemma ref_reads:
  assumes "m = ref_request \<or> m = ref_response"
  shows "\<forall>x\<in>set [m]. message_wf x \<and> json_text_faithful json_read json_write x"
    and "feeds (decode json_read) codec_new [] [encode_all json_write [m] []] [m] codec_new []"
proof -
  show ok: "\<forall>x\<in>set [m]. message_wf x \<and> json_text_faithful json_read json_write x"
    using assms ref_messages_ok by auto
  show "feeds (decode json_read) codec_new [] [encode_all json_write [m] []] [m] codec_new []"
    using encoded_stream_reads [OF ok, of "[encode_all json_write [m] []]" "[m]"] assms ref_messages_ok by auto
qed

theorem request_answered_by_peer_witness:
  "\<exists>f w. poll_request ref_tokio True f w = Ready (Inr (response_ok (IntegerId 1) JNull), w)"
proof -
  let ?tk = ref_tokio and ?s = ref_sender2 and ?c = ref_conn2 and ?w = ref_world2
  have reach: "conn_reach ?tk (ref_conn, ref_conn_world, []) (?c, ?w, [])"
    using reach_step [OF reach_refl Sender [OF ref_client_sender]] .
  have s: "conn_response_map ?c = Some (cs_response_map ?s)" "counter_ok ?s ?w"
    using client_sender_shape [OF ref_client_sender] by blast+
  have w: "id_counters ?w (cs_id_counter ?s) = 1" "outbound ?w = ([], True)"
    "response_maps ?w (cs_response_map ?s) (IntegerId 1) = None"
    by (simp_all add: ref_world2_def ref_sender2_def conn_client_sender_def response_map_new_def
        client_sender_new_def ref_conn_def ref_conn_world_def ref_world_def)
  obtain f w2 where f: "request ?tk ?s ''m'' None ?w = (Some (Awaiting f), w2)"
    "outbound w2 = ([ref_request], True)"
    using request_first_id [OF w(1,3,2), of "''m''" None] by (auto simp: ref_request_def)
  have drain: "drain_task ?tk a False [Inr ()] v = ([m], False, v\<lparr>outbound := ([], True)\<rparr>)"
    if "outbound v = ([m], True)" for a m and v :: "(ref_tokens, oneshot_result list, message list \<times> bool) world"
    using that by (simp add: ref_tokio_def)
  obtain pw1 where p: "route ?tk ref_conn (last [ref_request]) ref_conn_world
      = (IncomingRequest (request_new (IntegerId 1) ''m'' None) 3, ref_conn1, pw1)" "outbound pw1 = ([], True)"
    by (simp add: ref_request_def route_request_def ref_tokio_def ref_conn_def ref_conn1_def ref_conn_world_def ref_world_def
        incoming_register_def request_queue_new_def incoming_new_def request_new_def eval_nat_numeral)
  obtain pw2 where p2: "respond ?tk ?s (response_ok (req_id (request_new (IntegerId 1) ''m'' None)) JNull) pw1 = (Inr (), pw2)"
    "outbound pw2 = ([ref_response], True)"
    using p(2) by (auto simp: respond_def outbound_send_def ref_tokio_simps ref_response_def request_new_def)
  obtain x c' w4 where r: "route ?tk ?c (last [ref_response]) (client_run ?tk (cs_response_map ?s) [] (w2\<lparr>outbound := ([], True)\<rparr>)) = (x, c', w4)"
    by (metis prod_cases3)
  note q = ref_reads [of ref_request] and a = ref_reads [of ref_response]
  have "poll_request ?tk True f w4 = Ready (Inr (response_ok (req_id (request_new (IntegerId 1) ''m'' None)) JNull), w4)"
    using request_answered_by_peer [OF ref_rt.tokio_runtime_axioms ref_new reach s f(1) drain [OF f(2)] _ q(1) _ _ q(2) p(1) p2(1)
        drain [OF p2(2)] _ a(1) _ _ a(2) _ r, of True] by simp
  then show ?thesis
    by (auto simp: request_new_def)
qed

end
